theory Spec2Isabelle
  imports Main
begin

section \<open>Strings and the regular expressions of the validators\<close>

text \<open>
  The texts the program builds, logs and signs are modelled as HOL strings (lists of 8-bit
  characters, i.e. code points below 256). A tag name is validated as Python has it, as a list
  of code points of any size: under \<^verbatim>\<open>re.IGNORECASE\<close> the class \<^verbatim>\<open>[a-z]\<close> of a \<^verbatim>\<open>str\<close> pattern
  matches the 52 ASCII letters and four code points beyond 255 (U+0130, U+0131, U+017F and
  U+212A), so the tag validator is defined on code points and applied to a HOL string through
  its code points.
\<close>

abbreviation nl :: char where
  "nl \<equiv> CHR 0x0A"

definition in_range :: "char \<Rightarrow> char \<Rightarrow> char \<Rightarrow> bool" where
  \<comment> \<open>a character range \<^verbatim>\<open>lo-hi\<close> of a regular-expression class\<close>
  "in_range lo hi c = ((of_char lo :: nat) \<le> of_char c \<and> (of_char c :: nat) \<le> of_char hi)"

definition code_point :: "char \<Rightarrow> nat" where
  \<comment> \<open>\<^verbatim>\<open>ord(c)\<close>\<close>
  "code_point c = of_char c"

definition code_points :: "string \<Rightarrow> nat list" where
  \<comment> \<open>a string as Python holds it: the list of its code points\<close>
  "code_points s = map code_point s"

definition cp_range :: "char \<Rightarrow> char \<Rightarrow> nat \<Rightarrow> bool" where
  \<comment> \<open>a character range \<^verbatim>\<open>lo-hi\<close> of a regular-expression class, on code points\<close>
  "cp_range lo hi c = (code_point lo \<le> c \<and> c \<le> code_point hi)"

definition ignorecase_fold :: "nat \<Rightarrow> nat" where
  \<comment> \<open>case folding of \<^verbatim>\<open>re.IGNORECASE\<close> on a \<^verbatim>\<open>str\<close>, as far as the classes of this program
      can see it: an ASCII capital is matched as its small letter, U+0130 (capital I with dot
      above) and U+0131 (dotless i) as \<^verbatim>\<open>i\<close>, U+017F (long s) as \<^verbatim>\<open>s\<close> and U+212A (Kelvin sign)
      as \<^verbatim>\<open>k\<close>; no other code point is matched as a letter, a digit, \<^verbatim>\<open>-\<close>, \<^verbatim>\<open>.\<close> or \<^verbatim>\<open>_\<close>\<close>
  "ignorecase_fold c =
     (if cp_range CHR ''A'' CHR ''Z'' c then c + 32
      else if c = 0x130 \<or> c = 0x131 then code_point CHR ''i''
      else if c = 0x17F then code_point CHR ''s''
      else if c = 0x212A then code_point CHR ''k''
      else c)"

definition commit_class :: "char \<Rightarrow> bool" where
  \<comment> \<open>\<^verbatim>\<open>[0-9a-f]\<close>\<close>
  "commit_class c = (in_range CHR ''0'' CHR ''9'' c \<or> in_range CHR ''a'' CHR ''f'' c)"

definition tag_first_class :: "nat \<Rightarrow> bool" where
  \<comment> \<open>\<^verbatim>\<open>[a-z]\<close> under \<^verbatim>\<open>re.IGNORECASE\<close>, on the code points of a \<^verbatim>\<open>str\<close>\<close>
  "tag_first_class c = cp_range CHR ''a'' CHR ''z'' (ignorecase_fold c)"

definition tag_rest_class :: "nat \<Rightarrow> bool" where
  \<comment> \<open>\<^verbatim>\<open>[-._a-z0-9]\<close> under \<^verbatim>\<open>re.IGNORECASE\<close>, on the code points of a \<^verbatim>\<open>str\<close>\<close>
  "tag_rest_class c =
     (let l = ignorecase_fold c
      in l = code_point CHR ''-'' \<or> l = code_point CHR ''.'' \<or> l = code_point CHR ''_''
         \<or> cp_range CHR ''a'' CHR ''z'' l \<or> cp_range CHR ''0'' CHR ''9'' l)"

fun re_exactly :: "('a \<Rightarrow> bool) \<Rightarrow> nat \<Rightarrow> 'a list \<Rightarrow> 'a list option" where
  \<comment> \<open>\<^verbatim>\<open>[class]{n}\<close>: the rest of the subject after exactly \<open>n\<close> characters of the class\<close>
  "re_exactly p 0 s = Some s"
| "re_exactly p (Suc n) [] = None"
| "re_exactly p (Suc n) (c # cs) = (if p c then re_exactly p n cs else None)"

fun re_upto :: "('a \<Rightarrow> bool) \<Rightarrow> nat \<Rightarrow> 'a list \<Rightarrow> 'a list list" where
  \<comment> \<open>\<^verbatim>\<open>[class]{,n}\<close>: every rest of the subject the greedy repetition can leave behind,
      in the order the backtracking matcher tries them (longest match first)\<close>
  "re_upto p 0 s = [s]"
| "re_upto p (Suc n) [] = [[]]"
| "re_upto p (Suc n) (c # cs) = (if p c then re_upto p n cs @ [c # cs] else [c # cs])"

definition re_dollar :: "string \<Rightarrow> bool" where
  \<comment> \<open>\<^verbatim>\<open>$\<close> without \<^verbatim>\<open>re.MULTILINE\<close>: at the end of the subject, or just before a newline
      that is its last character\<close>
  "re_dollar s = (s = [] \<or> s = [nl])"

definition re_dollar_cp :: "nat list \<Rightarrow> bool" where
  \<comment> \<open>the same \<^verbatim>\<open>$\<close> on code points\<close>
  "re_dollar_cp s = (s = [] \<or> s = [code_point nl])"

definition match_commit_re :: "string \<Rightarrow> bool" where
  \<comment> \<open>\<^verbatim>\<open>re.match('^[0-9a-f]{40}$', commit)\<close> is not None\<close>
  "match_commit_re s = (case re_exactly commit_class 40 s of None \<Rightarrow> False | Some r \<Rightarrow> re_dollar r)"

definition match_tag_re :: "nat list \<Rightarrow> bool" where
  \<comment> \<open>\<^verbatim>\<open>re.match('^[a-z][-._a-z0-9]{,99}$', tag, re.IGNORECASE)\<close> is not None\<close>
  "match_tag_re s =
     (case re_exactly tag_first_class 1 s of
        None \<Rightarrow> False
      | Some r \<Rightarrow> list_ex re_dollar_cp (re_upto tag_rest_class 99 r))"

fun startswith :: "'a list \<Rightarrow> 'a list \<Rightarrow> bool" where
  \<comment> \<open>\<^verbatim>\<open>s.startswith(p)\<close>\<close>
  "startswith s [] = True"
| "startswith [] (p # ps) = False"
| "startswith (c # cs) (p # ps) = (c = p \<and> startswith cs ps)"

fun str_in :: "'a list \<Rightarrow> 'a list \<Rightarrow> bool" where
  \<comment> \<open>\<^verbatim>\<open>sub in s\<close>\<close>
  "str_in sub [] = (sub = [])"
| "str_in sub (c # cs) = (startswith (c # cs) sub \<or> str_in sub cs)"

section \<open>Request validation\<close>

definition valid_tag_cp :: "nat list \<Rightarrow> bool" where
  \<comment> \<open>\<^verbatim>\<open>valid_tag\<close> on a Python string, given by its code points\<close>
  "valid_tag_cp tag =
     (if str_in [code_point nl] tag then False
      else match_tag_re tag \<and> \<not> str_in (code_points ''..'') tag)"

definition valid_tag :: "string \<Rightarrow> bool" where
  \<comment> \<open>\<^verbatim>\<open>valid_tag\<close> on the strings of this model\<close>
  "valid_tag tag = valid_tag_cp (code_points tag)"

definition valid_commit :: "string \<Rightarrow> bool" where
  "valid_commit commit =
     (if str_in [nl] commit then False
      else match_commit_re commit)"

section \<open>Formatting\<close>

definition digit_char :: "nat \<Rightarrow> char" where
  "digit_char d = ''0123456789'' ! d"

fun str_nat :: "nat \<Rightarrow> string" where
  "str_nat n = (if n < 10 then [digit_char n] else str_nat (n div 10) @ [digit_char (n mod 10)])"

declare str_nat.simps [simp del]

definition str_int :: "int \<Rightarrow> string" where
  \<comment> \<open>\<^verbatim>\<open>str(i)\<close> and \<^verbatim>\<open>'%d' % i\<close> of a Python integer\<close>
  "str_int i = (if i < 0 then CHR ''-'' # str_nat (nat (- i)) else str_nat (nat i))"

definition replace_char :: "char \<Rightarrow> string \<Rightarrow> string \<Rightarrow> string" where
  \<comment> \<open>\<^verbatim>\<open>s.replace(old, new)\<close> for a pattern \<open>old\<close> of one character\<close>
  "replace_char old new s = concat (map (\<lambda>c. if c = old then new else [c]) s)"

section \<open>Configuration, the stamper object and its environment\<close>

text \<open>
  \<^verbatim>\<open>zeitgitter.config.arg\<close>, as far as the stamper reads it. \<open>cfg_keyid\<close> is its field
  \<^verbatim>\<open>keyid\<close>.
\<close>

record config =
  max_parallel_signatures :: nat
  max_parallel_timeout :: "nat option"
  own_url :: string
  cfg_keyid :: string
  gnupg_home :: string
  number_of_gpg_agents :: int
  repository :: string

text \<open>
  A \<^verbatim>\<open>gnupg.GPG\<close> object is identified by the credential directory it was built for:
  \<^verbatim>\<open>gnupg_home\<close> itself, or the link \<^verbatim>\<open>'%s-%d' % (gnupg_home, n)\<close>.
\<close>

datatype gpg_handle = GPG_home | GPG_link nat

datatype exn = ValueError | IndexError | OSError | UnicodeEncodeError | OverflowError
  | AssertionError | GpgError

text \<open>
  A call returns a value, raises, or never returns (an untimed wait on the semaphore that
  nothing serves).
\<close>

datatype 'a result = Returns 'a | Raises exn | Blocks

text \<open>What \<^verbatim>\<open>stamp_tag\<close> and \<^verbatim>\<open>stamp_branch\<close> return: \<^verbatim>\<open>406\<close>, \<^verbatim>\<open>None\<close> or the object text.\<close>

datatype reply = Code_406 | None_reply | Object string

datatype disk_state = Disk_ok | Open_fails | Write_fails | Fsync_fails

datatype event =
    Serialize_enter
  | Serialize_exit
  | Sig_time "int option"
  | Log_write string
  | Log_fsync
  | Sem_acquire bool
  | Sem_release
  | Sleep nat
  | Gpg_next gpg_handle
  | Gpg_sign gpg_handle string string "string list"

text \<open>
  The fields of a \<^verbatim>\<open>Stamper\<close>. \<open>sem\<close> is the counter of the bounded semaphore and
  \<open>sem_initial\<close> its bound.
\<close>

record stamper =
  sem :: nat
  sem_initial :: nat
  timeout :: "nat option"
  url :: string
  keyid :: string
  gpgs :: "gpg_handle list"
  keyinfo :: "string list list"
  fullid :: string
  pubkey :: string
  extra_delay :: "nat option"

text \<open>
  Everything outside the object:
  \<^item> \<open>clock\<close>: the value of \<^verbatim>\<open>int(os.getenv('IGITT_FAKE_TIME', time.time()))\<close> at its
    \<open>n\<close>-th evaluation, \<open>None\<close> when \<^verbatim>\<open>int\<close> raises on a malformed override;
    \<open>ticks\<close> counts the evaluations;
  \<^item> \<open>hashes_work\<close>: the bytes of the file \<^verbatim>\<open>hashes.work\<close> in the repository, and \<open>disk\<close>
    which step of an append fails, if any;
  \<^item> \<open>links\<close>: the numbers \<open>n\<close> whose path \<^verbatim>\<open>gnupg_home-n\<close> exists;
  \<^item> \<open>utc_string\<close>: \<^verbatim>\<open>time.strftime("%Y-%m-%d %H:%M:%S UTC", time.gmtime(now))\<close>, \<open>None\<close>
    when \<^verbatim>\<open>time.gmtime\<close> raises on a value out of its range;
  \<^item> \<open>gpg_sign\<close>, \<open>gpg_list_keys\<close>, \<open>gpg_export_keys\<close>: the GnuPG wrapper. \<open>gpg_sign\<close> gives
    the text of the signature object (\<^verbatim>\<open>str(sig)\<close>), \<open>None\<close> when the call raises;
    \<open>gpg_list_keys\<close> gives the \<^verbatim>\<open>uids\<close> of every key found;
  \<^item> \<open>trace\<close>: what has been done so far, oldest first.
\<close>

record world =
  clock :: "nat \<Rightarrow> int option"
  ticks :: nat
  hashes_work :: string
  disk :: disk_state
  links :: "nat set"
  utc_string :: "int \<Rightarrow> string option"
  gpg_sign :: "gpg_handle \<Rightarrow> string \<Rightarrow> string \<Rightarrow> string list \<Rightarrow> string option"
  gpg_list_keys :: "gpg_handle \<Rightarrow> string \<Rightarrow> string list list"
  gpg_export_keys :: "gpg_handle \<Rightarrow> string \<Rightarrow> string"
  trace :: "event list"

definition emit :: "event \<Rightarrow> world \<Rightarrow> world" where
  "emit e w = w\<lparr>trace := trace w @ [e]\<rparr>"

section \<open>The signing agent pool\<close>

text \<open>
  \<^verbatim>\<open>gpg\<close> runs under \<^verbatim>\<open>gpg_serialize\<close> from its first statement to its return, so a call is
  one step of the state. A link that \<^verbatim>\<open>lstat\<close> does not find is created. The \<^verbatim>\<open>print\<close> of
  the handle is left out.
\<close>

definition gpg :: "config \<Rightarrow> stamper \<Rightarrow> world \<Rightarrow> gpg_handle result \<times> stamper \<times> world" where
  "gpg cfg self w =
     (if int (length (gpgs self)) < number_of_gpg_agents cfg then
        let n = length (gpgs self);
            w1 = (if n \<in> links w then w else w\<lparr>links := insert n (links w)\<rparr>);
            nextgpg = GPG_link n
        in (Returns nextgpg, self\<lparr>gpgs := gpgs self @ [nextgpg]\<rparr>, emit (Gpg_next nextgpg) w1)
      else
        (case gpgs self of
           [] \<Rightarrow> (Raises IndexError, self, w)
         | nextgpg # rest \<Rightarrow>
             (Returns nextgpg, self\<lparr>gpgs := rest @ [nextgpg]\<rparr>, emit (Gpg_next nextgpg) w)))"

fun gpg_calls :: "config \<Rightarrow> nat \<Rightarrow> stamper \<Rightarrow> world \<Rightarrow> gpg_handle list \<times> stamper \<times> world" where
  \<comment> \<open>\<open>k\<close> calls of \<open>gpg\<close> in a row and the handles they return; stops at a call that raises\<close>
  "gpg_calls cfg 0 self w = ([], self, w)"
| "gpg_calls cfg (Suc k) self w =
     (case gpg cfg self w of
        (Returns g, self1, w1) \<Rightarrow>
          (case gpg_calls cfg k self1 w1 of (gs, self2, w2) \<Rightarrow> (g # gs, self2, w2))
      | (_, self1, w1) \<Rightarrow> ([], self1, w1))"

definition init :: "config \<Rightarrow> world \<Rightarrow> stamper result \<times> world" where
  \<comment> \<open>\<^verbatim>\<open>Stamper.__init__\<close>\<close>
  "init cfg w =
     (let self0 = \<lparr>sem = max_parallel_signatures cfg,
                   sem_initial = max_parallel_signatures cfg,
                   timeout = max_parallel_timeout cfg,
                   url = own_url cfg,
                   keyid = cfg_keyid cfg,
                   gpgs = [GPG_home],
                   keyinfo = [], fullid = [], pubkey = [], extra_delay = None\<rparr>
      in case gpg cfg self0 w of
           (Raises e, self1, w1) \<Rightarrow> (Raises e, w1)
         | (Blocks, self1, w1) \<Rightarrow> (Blocks, w1)
         | (Returns g1, self1, w1) \<Rightarrow>
             (let self2 = self1\<lparr>keyinfo := gpg_list_keys w1 g1 (keyid self1)\<rparr>
              in if length (keyinfo self2) = 0 then (Raises ValueError, w1)
                 else (case hd (keyinfo self2) of
                         [] \<Rightarrow> (Raises IndexError, w1)
                       | uid # _ \<Rightarrow>
                           (let self3 = self2\<lparr>fullid := uid\<rparr>
                            in case gpg cfg self3 w1 of
                                 (Raises e, self4, w2) \<Rightarrow> (Raises e, w2)
                               | (Blocks, self4, w2) \<Rightarrow> (Blocks, w2)
                               | (Returns g2, self4, w2) \<Rightarrow>
                                   (Returns (self4\<lparr>pubkey := gpg_export_keys w2 g2 (keyid self4),
                                                     extra_delay := None\<rparr>), w2)))))"

section \<open>Clock and commit log\<close>

text \<open>
  An append to the log fails at the opening of the file, at the encoding of the line, at the
  write or at the flush, or not at all; a write puts all its bytes into the file or none.
\<close>

definition sig_time :: "world \<Rightarrow> int option \<times> world" where
  "sig_time w = (clock w (ticks w), emit (Sig_time (clock w (ticks w))) (w\<lparr>ticks := Suc (ticks w)\<rparr>))"

definition is_ascii :: "string \<Rightarrow> bool" where
  "is_ascii s = list_all (\<lambda>c. (of_char c :: nat) < 128) s"

definition log_commit :: "world \<Rightarrow> string \<Rightarrow> exn option \<times> world" where
  "log_commit w commit =
     (if disk w = Open_fails then (Some OSError, w)
      else if \<not> is_ascii (commit @ [nl]) then (Some UnicodeEncodeError, w)
      else if disk w = Write_fails then (Some OSError, w)
      else
        let w1 = emit (Log_write (commit @ [nl])) (w\<lparr>hashes_work := hashes_work w @ commit @ [nl]\<rparr>)
        in if disk w = Fsync_fails then (Some OSError, w1)
           else (None, emit Log_fsync w1))"

section \<open>Signing under the concurrency limit\<close>

text \<open>
  The model is sequential: \<open>sem\<close> is what the other threads have left of the semaphore when
  the call arrives, and a wait on an exhausted semaphore is not served. With a timeout the
  wait ends with \<^verbatim>\<open>False\<close>, without one it never ends.
\<close>

definition sem_acquire :: "stamper \<Rightarrow> world \<Rightarrow> bool result \<times> stamper \<times> world" where
  "sem_acquire self w =
     (if 0 < sem self then (Returns True, self\<lparr>sem := sem self - 1\<rparr>, emit (Sem_acquire True) w)
      else (case timeout self of
              None \<Rightarrow> (Blocks, self, w)
            | Some t \<Rightarrow> (Returns False, self, emit (Sem_acquire False) w)))"

definition sem_release_op :: "stamper \<Rightarrow> world \<Rightarrow> exn option \<times> stamper \<times> world" where
  \<comment> \<open>\<^verbatim>\<open>BoundedSemaphore.release\<close>: raises when the counter is at its bound\<close>
  "sem_release_op self w =
     (if sem_initial self \<le> sem self then (Some ValueError, self, w)
      else (None, self\<lparr>sem := Suc (sem self)\<rparr>, emit Sem_release w))"

definition faked_time_args :: "int \<Rightarrow> string list" where
  "faked_time_args now = [''--faked-system-time'', str_int now @ ''!'']"

definition limited_sign ::
  "config \<Rightarrow> stamper \<Rightarrow> world \<Rightarrow> int \<Rightarrow> string \<Rightarrow> string \<Rightarrow> string option result \<times> stamper \<times> world" where
  "limited_sign cfg self w now commit data =
     (case sem_acquire self w of
        (Blocks, self1, w1) \<Rightarrow> (Blocks, self1, w1)
      | (Raises e, self1, w1) \<Rightarrow> (Raises e, self1, w1)
      | (Returns False, self1, w1) \<Rightarrow> (Returns None, self1, w1)
      | (Returns True, self1, w1) \<Rightarrow>
          (let w2 = (case extra_delay self1 of
                       None \<Rightarrow> w1
                     | Some d \<Rightarrow> if d = 0 then w1 else emit (Sleep d) w1);
               (ret, self2, w3) =
                 (case gpg cfg self1 w2 of
                    (Returns g, self', w') \<Rightarrow>
                      (case gpg_sign w' g data (keyid self') (faked_time_args now) of
                         None \<Rightarrow> Raises GpgError
                       | Some sig \<Rightarrow> Returns (Some sig),
                       self',
                       emit (Gpg_sign g data (keyid self') (faked_time_args now)) w')
                  | (Raises e, self', w') \<Rightarrow> (Raises e, self', w')
                  | (Blocks, self', w') \<Rightarrow> (Blocks, self', w'))
           in case sem_release_op self2 w3 of
                (Some e, self3, w4) \<Rightarrow> (Raises e, self3, w4)
              | (None, self3, w4) \<Rightarrow> (ret, self3, w4)))"

section \<open>The two requests\<close>

definition tag_object :: "stamper \<Rightarrow> string \<Rightarrow> string \<Rightarrow> int \<Rightarrow> string" where
  "tag_object self commit tagname now =
     ''object '' @ commit @ [nl]
     @ ''type commit'' @ [nl]
     @ ''tag '' @ tagname @ [nl]
     @ ''tagger '' @ fullid self @ '' '' @ str_int now @ '' +0000'' @ [nl]
     @ [nl]
     @ url self @ '' tag timestamp'' @ [nl]"

definition stamp_tag ::
  "config \<Rightarrow> stamper \<Rightarrow> world \<Rightarrow> string \<Rightarrow> string \<Rightarrow> reply result \<times> stamper \<times> world" where
  "stamp_tag cfg self w commit tagname =
     (if valid_commit commit \<and> valid_tag tagname then
        (case sig_time (emit Serialize_enter w) of
           (None, w1) \<Rightarrow> (Raises ValueError, self, emit Serialize_exit w1)
         | (Some now, w1) \<Rightarrow>
             (case log_commit w1 commit of
                (Some e, w2) \<Rightarrow> (Raises e, self, emit Serialize_exit w2)
              | (None, w2) \<Rightarrow>
                  (let w3 = emit Serialize_exit w2
                   in case utc_string w3 now of
                        None \<Rightarrow> (Raises OverflowError, self, w3)
                      | Some isonow \<Rightarrow>
                          (let tagobj = tag_object self commit tagname now
                           in case limited_sign cfg self w3 now commit tagobj of
                                (Returns None, self1, w4) \<Rightarrow> (Returns None_reply, self1, w4)
                              | (Returns (Some sig), self1, w4) \<Rightarrow>
                                  (Returns (Object (tagobj @ sig)), self1, w4)
                              | (Raises e, self1, w4) \<Rightarrow> (Raises e, self1, w4)
                              | (Blocks, self1, w4) \<Rightarrow> (Blocks, self1, w4)))))
      else (Returns Code_406, self, w))"

definition commitobj1 :: "stamper \<Rightarrow> string \<Rightarrow> string option \<Rightarrow> string \<Rightarrow> int \<Rightarrow> string" where
  "commitobj1 self commit parent tree now =
     (case parent of
        None \<Rightarrow>
          ''tree '' @ tree @ [nl]
          @ ''parent '' @ commit @ [nl]
          @ ''author '' @ fullid self @ '' '' @ str_int now @ '' +0000'' @ [nl]
          @ ''committer '' @ fullid self @ '' '' @ str_int now @ '' +0000'' @ [nl]
      | Some p \<Rightarrow>
          ''tree '' @ tree @ [nl]
          @ ''parent '' @ p @ [nl]
          @ ''parent '' @ commit @ [nl]
          @ ''author '' @ fullid self @ '' '' @ str_int now @ '' +0000'' @ [nl]
          @ ''committer '' @ fullid self @ '' '' @ str_int now @ '' +0000'' @ [nl])"

definition commitobj2 :: "stamper \<Rightarrow> string \<Rightarrow> string" where
  "commitobj2 self isonow = [nl] @ url self @ '' branch timestamp '' @ isonow @ [nl]"

definition gpgsig_header :: "string \<Rightarrow> string" where
  \<comment> \<open>\<^verbatim>\<open>'gpgsig ' + str(sig).replace('\n', '\n ')[:-1]\<close>\<close>
  "gpgsig_header sig = ''gpgsig '' @ butlast (replace_char nl [nl, CHR '' ''] sig)"

definition stamp_branch ::
  "config \<Rightarrow> stamper \<Rightarrow> world \<Rightarrow> string \<Rightarrow> string option \<Rightarrow> string
     \<Rightarrow> reply result \<times> stamper \<times> world" where
  "stamp_branch cfg self w commit parent tree =
     (if valid_commit commit \<and> valid_commit tree
         \<and> (case parent of None \<Rightarrow> True | Some p \<Rightarrow> valid_commit p) then
        (case sig_time (emit Serialize_enter w) of
           (None, w1) \<Rightarrow> (Raises ValueError, self, emit Serialize_exit w1)
         | (Some now, w1) \<Rightarrow>
             (case log_commit w1 commit of
                (Some e, w2) \<Rightarrow> (Raises e, self, emit Serialize_exit w2)
              | (None, w2) \<Rightarrow>
                  (let w3 = emit Serialize_exit w2
                   in case utc_string w3 now of
                        None \<Rightarrow> (Raises OverflowError, self, w3)
                      | Some isonow \<Rightarrow>
                          (let part1 = commitobj1 self commit parent tree now;
                               part2 = commitobj2 self isonow
                           in case limited_sign cfg self w3 now commit (part1 @ part2) of
                                (Returns None, self1, w4) \<Rightarrow> (Returns None_reply, self1, w4)
                              | (Returns (Some sig), self1, w4) \<Rightarrow>
                                  (let gpgsig = gpgsig_header sig
                                   in if last gpgsig = nl
                                      then (Returns (Object (part1 @ gpgsig @ part2)), self1, w4)
                                      else (Raises AssertionError, self1, w4))
                              | (Raises e, self1, w4) \<Rightarrow> (Raises e, self1, w4)
                              | (Blocks, self1, w4) \<Rightarrow> (Blocks, self1, w4)))))
      else (Returns Code_406, self, w))"

section \<open>Vocabulary of the specification\<close>

text \<open>The character sets the specification names, written out.\<close>

definition lower_hex :: "char \<Rightarrow> bool" where
  "lower_hex c = (c \<in> set ''0123456789abcdef'')"

definition any_hex :: "char \<Rightarrow> bool" where
  "any_hex c = (c \<in> set ''0123456789abcdefABCDEF'')"

definition ascii_letter :: "nat \<Rightarrow> bool" where
  \<comment> \<open>the code point of one of the 52 letters a to z and A to Z\<close>
  "ascii_letter c =
     (c \<in> set (code_points ''abcdefghijklmnopqrstuvwxyzABCDEFGHIJKLMNOPQRSTUVWXYZ''))"

definition folded_letter :: "nat \<Rightarrow> bool" where
  \<comment> \<open>U+0130, U+0131, U+017F and U+212A\<close>
  "folded_letter c = (c \<in> {0x130, 0x131, 0x17F, 0x212A})"

definition python_letter :: "nat \<Rightarrow> bool" where
  "python_letter c = (ascii_letter c \<or> folded_letter c)"

definition tag_grammar :: "(nat \<Rightarrow> bool) \<Rightarrow> nat list \<Rightarrow> bool" where
  \<comment> \<open>a letter, then at most 99 letters, digits, hyphens, dots and underscores, for a given
      notion of letter\<close>
  "tag_grammar letter s =
     (case s of
        [] \<Rightarrow> False
      | c # cs \<Rightarrow> letter c \<and> length cs \<le> 99
                  \<and> list_all (\<lambda>x. letter x \<or> x \<in> set (code_points ''0123456789-._'')) cs)"

text \<open>The lines of a text, each with its newline (the last one may lack it).\<close>

fun lines_keepends :: "string \<Rightarrow> string list" where
  "lines_keepends [] = []"
| "lines_keepends (c # cs) =
     (if c = nl then [c] # lines_keepends cs
      else (case lines_keepends cs of [] \<Rightarrow> [[c]] | l # ls \<Rightarrow> (c # l) # ls))"



text \<open>What a call added to the trace, and the kinds of events in it.\<close>

definition new_events :: "world \<Rightarrow> world \<Rightarrow> event list" where
  "new_events w w' = drop (length (trace w)) (trace w')"

fun is_sign :: "event \<Rightarrow> bool" where
  "is_sign (Gpg_sign g d k a) = True"
| "is_sign _ = False"

fun is_log_write :: "event \<Rightarrow> bool" where
  "is_log_write (Log_write l) = True"
| "is_log_write _ = False"

fun is_sig_time :: "event \<Rightarrow> bool" where
  "is_sig_time (Sig_time t) = True"
| "is_sig_time _ = False"

text \<open>
  What a call leaves untouched in the environment, and the world after the serialized block
  of a request whose clock reading and log append succeed.
\<close>

definition same_env :: "world \<Rightarrow> world \<Rightarrow> bool" where
  "same_env w w' =
     (clock w' = clock w \<and> disk w' = disk w \<and> utc_string w' = utc_string w
      \<and> gpg_sign w' = gpg_sign w \<and> gpg_list_keys w' = gpg_list_keys w
      \<and> gpg_export_keys w' = gpg_export_keys w)"

definition serialized_block :: "world \<Rightarrow> string \<Rightarrow> int \<Rightarrow> world" where
  "serialized_block w commit now =
     w\<lparr>ticks := Suc (ticks w),
       hashes_work := hashes_work w @ commit @ [nl],
       trace := trace w @ [Serialize_enter, Sig_time (Some now), Log_write (commit @ [nl]),
                           Log_fsync, Serialize_exit]\<rparr>"

definition tag_reply ::
  "string \<Rightarrow> string option result \<times> stamper \<times> world \<Rightarrow> reply result \<times> stamper \<times> world" where
  "tag_reply tagobj x =
     (case x of
        (Returns None, self1, w4) \<Rightarrow> (Returns None_reply, self1, w4)
      | (Returns (Some sig), self1, w4) \<Rightarrow> (Returns (Object (tagobj @ sig)), self1, w4)
      | (Raises e, self1, w4) \<Rightarrow> (Raises e, self1, w4)
      | (Blocks, self1, w4) \<Rightarrow> (Blocks, self1, w4))"

definition branch_reply ::
  "string \<Rightarrow> string \<Rightarrow> string option result \<times> stamper \<times> world
     \<Rightarrow> reply result \<times> stamper \<times> world" where
  "branch_reply part1 part2 x =
     (case x of
        (Returns None, self1, w4) \<Rightarrow> (Returns None_reply, self1, w4)
      | (Returns (Some sig), self1, w4) \<Rightarrow>
          (if last (gpgsig_header sig) = nl
           then (Returns (Object (part1 @ gpgsig_header sig @ part2)), self1, w4)
           else (Raises AssertionError, self1, w4))
      | (Raises e, self1, w4) \<Rightarrow> (Raises e, self1, w4)
      | (Blocks, self1, w4) \<Rightarrow> (Blocks, self1, w4))"

text \<open>
  The handle the next call of \<open>gpg\<close> returns, and the pool it leaves.
\<close>

definition next_gpg :: "config \<Rightarrow> stamper \<Rightarrow> gpg_handle" where
  "next_gpg cfg self =
     (if int (length (gpgs self)) < number_of_gpg_agents cfg then GPG_link (length (gpgs self))
      else hd (gpgs self))"

definition next_pool :: "config \<Rightarrow> stamper \<Rightarrow> gpg_handle list" where
  "next_pool cfg self =
     (if int (length (gpgs self)) < number_of_gpg_agents cfg
      then gpgs self @ [GPG_link (length (gpgs self))]
      else tl (gpgs self) @ [hd (gpgs self)])"

text \<open>The parts of what a call gives back, and the events a call added.\<close>

definition result_of :: "'a \<times> stamper \<times> world \<Rightarrow> 'a" where
  "result_of x = fst x"

definition stamper_of :: "'a \<times> stamper \<times> world \<Rightarrow> stamper" where
  "stamper_of x = fst (snd x)"

definition world_of :: "'a \<times> stamper \<times> world \<Rightarrow> world" where
  "world_of x = snd (snd x)"

definition events_of :: "world \<Rightarrow> 'a \<times> stamper \<times> world \<Rightarrow> event list" where
  "events_of w x = new_events w (world_of x)"

text \<open>
  A request for \<open>commit\<close> is logged first: the file has grown by exactly the line of the
  commit; the call began by taking the ordering lock, reading the clock, writing that line,
  flushing it and leaving the lock; and nothing after these five steps writes to the log or
  reads the clock again. Every signing call is therefore among the later events.
\<close>

definition request_logged :: "string \<Rightarrow> world \<Rightarrow> world \<Rightarrow> bool" where
  "request_logged commit w w' =
     (hashes_work w' = hashes_work w @ commit @ [nl]
      \<and> clock w (ticks w) \<noteq> None
      \<and> trace w' = trace w @ new_events w w'
      \<and> take 5 (new_events w w') =
          [Serialize_enter, Sig_time (clock w (ticks w)), Log_write (commit @ [nl]), Log_fsync,
           Serialize_exit]
      \<and> \<not> list_ex is_log_write (drop 5 (new_events w w'))
      \<and> \<not> list_ex is_sig_time (drop 5 (new_events w w')))"

text \<open>
  The object texts in the words of the specification: a list of lines, each ended by a
  newline.
\<close>

definition text_of_lines :: "string list \<Rightarrow> string" where
  "text_of_lines ls = concat (map (\<lambda>l. l @ [nl]) ls)"

definition tag_body :: "string \<Rightarrow> string \<Rightarrow> string \<Rightarrow> int \<Rightarrow> string \<Rightarrow> string" where
  "tag_body commit tagname identity timestamp own =
     text_of_lines
       [''object '' @ commit,
        ''type commit'',
        ''tag '' @ tagname,
        ''tagger '' @ identity @ '' '' @ str_int timestamp @ '' +0000'',
        [],
        own @ '' tag timestamp'']"

definition commit_part1 :: "string \<Rightarrow> string list \<Rightarrow> string \<Rightarrow> int \<Rightarrow> string" where
  "commit_part1 tree parents identity timestamp =
     text_of_lines
       ([''tree '' @ tree]
        @ map (\<lambda>p. ''parent '' @ p) parents
        @ [''author '' @ identity @ '' '' @ str_int timestamp @ '' +0000'',
           ''committer '' @ identity @ '' '' @ str_int timestamp @ '' +0000''])"

definition commit_part2 :: "string \<Rightarrow> string \<Rightarrow> string" where
  "commit_part2 own isonow = text_of_lines [[], own @ '' branch timestamp '' @ isonow]"

text \<open>
  The clock is read once, under the ordering lock: the call begins by taking the lock and
  reading the clock, leaves the lock later, and does not read the clock again.
\<close>

definition sampled_under_lock :: "int option \<Rightarrow> event list \<Rightarrow> bool" where
  "sampled_under_lock t evs =
     (take 2 evs = [Serialize_enter, Sig_time t]
      \<and> Serialize_exit \<in> set (drop 2 evs)
      \<and> \<not> list_ex is_sign (takeWhile (\<lambda>e. e \<noteq> Serialize_exit) evs)
      \<and> filter is_sig_time evs = [Sig_time t])"

text \<open>
  The handles that \<open>k\<close> selections in a row return, and the pool they leave. A pool is
  well formed when no handle occurs twice in it and every link in it has a number below the
  size of the pool, so that the next link is new.
\<close>

definition selected :: "config \<Rightarrow> nat \<Rightarrow> stamper \<Rightarrow> world \<Rightarrow> gpg_handle list" where
  "selected cfg k self w = result_of (gpg_calls cfg k self w)"

definition pool_after :: "config \<Rightarrow> nat \<Rightarrow> stamper \<Rightarrow> world \<Rightarrow> gpg_handle list" where
  "pool_after cfg k self w = gpgs (stamper_of (gpg_calls cfg k self w))"

definition pool_inv :: "gpg_handle list \<Rightarrow> bool" where
  "pool_inv p =
     (distinct p
      \<and> list_all (\<lambda>g. case g of GPG_home \<Rightarrow> True | GPG_link i \<Rightarrow> i < length p) p)"

text \<open>A concrete service, for the examples: the values of the specification's test.\<close>

definition example_cfg :: config where
  "example_cfg =
     \<lparr>max_parallel_signatures = 2, max_parallel_timeout = Some 1,
      own_url = ''https://example.org'', cfg_keyid = ''0xKEY'', gnupg_home = ''/gnupg'',
      number_of_gpg_agents = 3, repository = ''/repo''\<rparr>"

definition example_sig :: string where
  "example_sig = ''SIGLINE1'' @ [nl] @ ''SIGLINE2'' @ [nl]"

definition example_world :: world where
  "example_world =
     \<lparr>clock = (\<lambda>n. Some 1577836800), ticks = 0, hashes_work = [], disk = Disk_ok, links = {},
      utc_string = (\<lambda>t. if t = 1577836800 then Some ''2020-01-01 00:00:00 UTC'' else None),
      gpg_sign = (\<lambda>g d k a. Some example_sig),
      gpg_list_keys = (\<lambda>g k. [[''Alice <alice@example.com>'']]),
      gpg_export_keys = (\<lambda>g k. ''PUBKEY''),
      trace = []\<rparr>"

definition example_stamper :: stamper where
  "example_stamper =
     \<lparr>sem = 2, sem_initial = 2, timeout = Some 1, url = ''https://example.org'',
      keyid = ''0xKEY'', gpgs = [GPG_home, GPG_link 1, GPG_link 2],
      keyinfo = [[''Alice <alice@example.com>'']], fullid = ''Alice <alice@example.com>'',
      pubkey = ''PUBKEY'', extra_delay = None\<rparr>"

definition example_commit :: string where
  "example_commit = ''aaaaaaaaaaaaaaaaaaaaaaaaaaaaaaaaaaaaaaaa''"

definition example_parent :: string where
  "example_parent = ''fedcba9876543210fedcba9876543210fedcba98''"

definition example_tree :: string where
  "example_tree = ''0123456789abcdef0123456789abcdef01234567''"

section \<open>Properties of the validators\<close>

lemma commit_class_eq: "commit_class c = lower_hex c"
  by (cases c) (simp add: commit_class_def lower_hex_def in_range_def)

lemma tag_first_class_eq: "tag_first_class c = python_letter c"
  unfolding tag_first_class_def python_letter_def ascii_letter_def folded_letter_def
    ignorecase_fold_def cp_range_def code_points_def code_point_def
  by simp arith

lemma tag_rest_class_eq:
  "tag_rest_class c = (python_letter c \<or> c \<in> set (code_points ''0123456789-._''))"
  unfolding tag_rest_class_def python_letter_def ascii_letter_def folded_letter_def
    ignorecase_fold_def cp_range_def code_points_def code_point_def
  by simp arith

lemma str_in_char: "str_in [c] s \<longleftrightarrow> c \<in> set s"
  by (induction s) auto

lemma startswith_iff: "startswith s p \<longleftrightarrow> (\<exists>r. s = p @ r)"
  by (induction s p rule: startswith.induct) auto

lemma str_in_iff: "str_in sub s \<longleftrightarrow> (\<exists>ps ss. s = ps @ sub @ ss)"
proof (induction s)
  case Nil
  then show ?case by auto
next
  case (Cons c cs)
  show ?case
  proof
    assume "str_in sub (c # cs)"
    then consider "startswith (c # cs) sub" | "str_in sub cs" by auto
    then show "\<exists>ps ss. c # cs = ps @ sub @ ss"
    proof cases
      case 1
      then obtain r where "c # cs = sub @ r" by (auto simp: startswith_iff)
      then have "c # cs = [] @ sub @ r" by simp
      then show ?thesis by blast
    next
      case 2
      then obtain ps ss where "cs = ps @ sub @ ss" using Cons.IH by auto
      then have "c # cs = (c # ps) @ sub @ ss" by simp
      then show ?thesis by blast
    qed
  next
    assume "\<exists>ps ss. c # cs = ps @ sub @ ss"
    then obtain ps ss where eq: "c # cs = ps @ sub @ ss" by auto
    show "str_in sub (c # cs)"
    proof (cases ps)
      case Nil
      then have "startswith (c # cs) sub" using eq by (simp add: startswith_iff)
      then show ?thesis by simp
    next
      case (Cons a as)
      then have "cs = as @ sub @ ss" using eq by simp
      then have "str_in sub cs" using Cons.IH by blast
      then show ?thesis by simp
    qed
  qed
qed

lemma re_exactly_iff:
  "re_exactly p n s = Some r \<longleftrightarrow> n \<le> length s \<and> list_all p (take n s) \<and> r = drop n s"
  by (induction p n s rule: re_exactly.induct) auto

lemma re_upto_set:
  "set (re_upto p n s) = {drop k s | k. k \<le> n \<and> k \<le> length s \<and> list_all p (take k s)}"
proof (induction p n s rule: re_upto.induct)
  case (1 p s)
  then show ?case by auto
next
  case (2 p n)
  then show ?case by auto
next
  case (3 p n c cs)
  let ?L = "{drop k (c # cs) | k. k \<le> Suc n \<and> k \<le> length (c # cs) \<and> list_all p (take k (c # cs))}"
  let ?R = "{drop k cs | k. k \<le> n \<and> k \<le> length cs \<and> list_all p (take k cs)}"
  have whole: "c # cs \<in> ?L"
  proof -
    have "c # cs = drop 0 (c # cs) \<and> 0 \<le> Suc n \<and> 0 \<le> length (c # cs)
        \<and> list_all p (take 0 (c # cs))"
      by simp
    then show ?thesis by blast
  qed
  show ?case
  proof (cases "p c")
    case False
    have z: "\<And>k. list_all p (take k (c # cs)) \<Longrightarrow> k = 0"
      using False by (case_tac k) auto
    have "?L = {c # cs}"
    proof (intro set_eqI iffI)
      fix x assume "x \<in> ?L"
      then obtain k where "x = drop k (c # cs)" "list_all p (take k (c # cs))" by auto
      then show "x \<in> {c # cs}" using z[of k] by simp
    next
      fix x assume "x \<in> {c # cs}"
      then show "x \<in> ?L" using whole by simp
    qed
    then show ?thesis using False by simp
  next
    case True
    have "?L = insert (c # cs) ?R"
    proof (intro set_eqI iffI)
      fix x assume "x \<in> ?L"
      then obtain k where k: "x = drop k (c # cs)" "k \<le> Suc n" "k \<le> length (c # cs)"
        "list_all p (take k (c # cs))" by auto
      show "x \<in> insert (c # cs) ?R"
      proof (cases k)
        case 0
        then show ?thesis using k by simp
      next
        case (Suc j)
        then have "x = drop j cs" "j \<le> n" "j \<le> length cs" "list_all p (take j cs)"
          using k by auto
        then show ?thesis by blast
      qed
    next
      fix x assume "x \<in> insert (c # cs) ?R"
      then consider "x = c # cs" | "x \<in> ?R" by auto
      then show "x \<in> ?L"
      proof cases
        case 1
        then show ?thesis using whole by simp
      next
        case 2
        then obtain j where "x = drop j cs" "j \<le> n" "j \<le> length cs" "list_all p (take j cs)"
          by auto
        then have "x = drop (Suc j) (c # cs) \<and> Suc j \<le> Suc n \<and> Suc j \<le> length (c # cs)
            \<and> list_all p (take (Suc j) (c # cs))"
          using True by simp
        then show ?thesis by blast
      qed
    qed
    then show ?thesis using True "3.IH" by auto
  qed
qed

lemma upto_dollar:
  assumes "code_point nl \<notin> set s"
  shows "list_ex re_dollar_cp (re_upto p n s) \<longleftrightarrow> length s \<le> n \<and> list_all p s"
proof
  assume "list_ex re_dollar_cp (re_upto p n s)"
  then obtain r where r: "r \<in> set (re_upto p n s)" "re_dollar_cp r" by (auto simp: list_ex_iff)
  then obtain k where k: "r = drop k s" "k \<le> n" "k \<le> length s" "list_all p (take k s)"
    by (auto simp: re_upto_set)
  have "set (drop k s) \<subseteq> set s" by (rule set_drop_subset)
  then have "code_point nl \<notin> set r" using assms k(1) by auto
  then have "r = []" using r(2) by (auto simp: re_dollar_cp_def)
  then have "k = length s" using k by simp
  then show "length s \<le> n \<and> list_all p s" using k by simp
next
  assume a: "length s \<le> n \<and> list_all p s"
  then have "drop (length s) s \<in> set (re_upto p n s)"
    unfolding re_upto_set by (intro CollectI exI[of _ "length s"]) simp
  then show "list_ex re_dollar_cp (re_upto p n s)" by (auto simp: list_ex_iff re_dollar_cp_def)
qed

lemma valid_commit_iff: "valid_commit s \<longleftrightarrow> length s = 40 \<and> list_all lower_hex s"
proof
  assume v: "valid_commit s"
  then have n: "nl \<notin> set s" by (auto simp: valid_commit_def str_in_char split: if_splits)
  from v obtain r where r: "re_exactly commit_class 40 s = Some r" "re_dollar r"
    by (auto simp: valid_commit_def match_commit_re_def split: if_splits option.splits)
  then have f: "40 \<le> length s" "list_all commit_class (take 40 s)" "r = drop 40 s"
    by (auto simp: re_exactly_iff)
  have "set (drop 40 s) \<subseteq> set s" by (rule set_drop_subset)
  then have "nl \<notin> set r" using n f(3) by auto
  then have "r = []" using r(2) by (auto simp: re_dollar_def)
  then have "length s = 40" using f by simp
  then show "length s = 40 \<and> list_all lower_hex s" using f(2)
    by (simp add: commit_class_eq list_all_iff)
next
  assume a: "length s = 40 \<and> list_all lower_hex s"
  have "\<not> lower_hex nl" by (simp add: lower_hex_def)
  then have n: "nl \<notin> set s" using a by (auto simp: list_all_iff)
  have "re_exactly commit_class 40 s = Some []"
    using a by (simp add: re_exactly_iff commit_class_eq list_all_iff)
  then show "valid_commit s" using n
    by (simp add: valid_commit_def match_commit_re_def str_in_char re_dollar_def)
qed

lemma valid_tag_cp_iff:
  "valid_tag_cp s \<longleftrightarrow>
     code_point nl \<notin> set s \<and> tag_grammar python_letter s
     \<and> \<not> (\<exists>ps ss. s = ps @ code_points ''..'' @ ss)"
proof (cases "code_point nl \<in> set s")
  case True
  then show ?thesis by (simp add: valid_tag_cp_def str_in_char)
next
  case False
  show ?thesis
  proof (cases s)
    case Nil
    then show ?thesis by (simp add: valid_tag_cp_def match_tag_re_def tag_grammar_def)
  next
    case (Cons c cs)
    have n: "code_point nl \<notin> set cs" using False Cons by simp
    have "match_tag_re s \<longleftrightarrow> tag_grammar python_letter s"
      using Cons upto_dollar[OF n, of tag_rest_class 99]
      by (auto simp: match_tag_re_def tag_grammar_def tag_first_class_eq tag_rest_class_eq
            list_all_iff)
    then show ?thesis using False
      by (simp add: valid_tag_cp_def str_in_char str_in_iff[of "code_points ''..''"])
  qed
qed



text \<open>
  C3 (as the code has it). \<open>valid_commit s\<close> holds if and only if \<open>s\<close> has exactly 40
  characters, each a digit or one of the lowercase letters a to f, and no newline. The match
  is case-sensitive: uppercase hexadecimal digits are rejected. In particular a string whose
  length is not 40, or that has a character that is no hexadecimal digit of either case, or
  that has a newline, is rejected.
\<close>

theorem valid_commit_spec:
  "(valid_commit s \<longleftrightarrow> length s = 40 \<and> list_all lower_hex s \<and> nl \<notin> set s)
   \<and> (length s \<noteq> 40 \<or> \<not> list_all any_hex s \<or> nl \<in> set s \<longrightarrow> \<not> valid_commit s)"
proof -
  have low: "\<And>c. lower_hex c \<Longrightarrow> any_hex c \<and> c \<noteq> nl"
    by (auto simp: lower_hex_def any_hex_def)
  have "list_all lower_hex s \<Longrightarrow> list_all any_hex s \<and> nl \<notin> set s"
    using low by (auto simp: list_all_iff)
  then show ?thesis by (auto simp: valid_commit_iff)
qed

theorem valid_commit_spec_witness:
  "valid_commit ''0123456789abcdef0123456789abcdef01234567''
   \<and> length ''abc'' \<noteq> 40 \<and> \<not> valid_commit ''abc''"
  using valid_commit_spec [of "''0123456789abcdef0123456789abcdef01234567''"]
    valid_commit_spec [of "''abc''"]
  by (simp add: lower_hex_def)

text \<open>
  C3 as stated fails: a string of 40 hexadecimal digits with uppercase letters and no newline
  is rejected.
\<close>

theorem valid_commit_uppercase_counterexample:
  "length ''ABCDEF0123456789ABCDEF0123456789ABCDEF01'' = 40
   \<and> list_all any_hex ''ABCDEF0123456789ABCDEF0123456789ABCDEF01''
   \<and> nl \<notin> set ''ABCDEF0123456789ABCDEF0123456789ABCDEF01''
   \<and> \<not> valid_commit ''ABCDEF0123456789ABCDEF0123456789ABCDEF01''"
  by (simp add: any_hex_def valid_commit_iff lower_hex_def)




section \<open>How the operations run\<close>

lemma str_int_example: "str_int 1577836800 = ''1577836800''"
  by (simp add: str_int_def str_nat.simps digit_char_def)

lemma example_init:
  "init example_cfg example_world =
     (Returns example_stamper,
      example_world\<lparr>links := {1, 2}, trace := [Gpg_next (GPG_link 1), Gpg_next (GPG_link 2)]\<rparr>)"
  by (simp add: init_def gpg_def example_cfg_def example_world_def example_stamper_def emit_def
        Let_def insert_commute numeral_2_eq_2)

lemma gpg_frame:
  assumes "gpg cfg self w = (r, self', w')"
  shows "same_env w w' \<and> hashes_work w' = hashes_work w \<and> ticks w' = ticks w
         \<and> trace w' = trace w @ new_events w w'
         \<and> new_events w w' = (case r of Returns g \<Rightarrow> [Gpg_next g] | _ \<Rightarrow> [])
         \<and> self' = self\<lparr>gpgs := gpgs self'\<rparr>"
  using assms
  by (auto simp: gpg_def emit_def Let_def same_env_def new_events_def split: if_splits list.splits)

lemma gpg_eq:
  "gpg cfg self w =
     (if int (length (gpgs self)) < number_of_gpg_agents cfg \<or> gpgs self \<noteq> []
      then (Returns (next_gpg cfg self), self\<lparr>gpgs := next_pool cfg self\<rparr>,
            w\<lparr>links := (if int (length (gpgs self)) < number_of_gpg_agents cfg
                         then insert (length (gpgs self)) (links w) else links w),
              trace := trace w @ [Gpg_next (next_gpg cfg self)]\<rparr>)
      else (Raises IndexError, self, w))"
  by (auto simp: gpg_def emit_def Let_def next_gpg_def next_pool_def insert_absorb
      split: list.splits)

lemma limited_sign_frame:
  assumes "limited_sign cfg self w now commit data = (r, self', w')"
  shows "same_env w w' \<and> hashes_work w' = hashes_work w \<and> ticks w' = ticks w
         \<and> trace w' = trace w @ new_events w w'
         \<and> self' = self\<lparr>gpgs := gpgs self', sem := sem self'\<rparr>"
  using assms
  by (auto simp: limited_sign_def sem_acquire_def sem_release_op_def gpg_def emit_def Let_def
       same_env_def new_events_def
      split: if_splits list.splits option.splits prod.splits result.splits bool.splits)

lemma limited_sign_events:
  assumes "limited_sign cfg self w now commit data = (r, self', w')"
  shows "\<not> list_ex is_log_write (new_events w w') \<and> \<not> list_ex is_sig_time (new_events w w')
           \<and> (filter is_sign (new_events w w') = []
               \<or> (\<exists>g. filter is_sign (new_events w w') = [Gpg_sign g data (keyid self) (faked_time_args now)]))
           \<and> (r = Returns None \<longleftrightarrow> new_events w w' = [Sem_acquire False])
           \<and> (r = Returns None \<longleftrightarrow> sem self = 0 \<and> timeout self \<noteq> None)
           \<and> (\<forall>sig. r = Returns (Some sig) \<longrightarrow>
                 (\<exists>g. filter is_sign (new_events w w') = [Gpg_sign g data (keyid self) (faked_time_args now)]
                    \<and> gpg_sign w g data (keyid self) (faked_time_args now) = Some sig))"
  using assms
  by (auto simp: limited_sign_def sem_acquire_def sem_release_op_def gpg_def emit_def Let_def
       new_events_def
      split: if_splits list.splits option.splits prod.splits result.splits bool.splits)

lemma lower_hex_ascii: "lower_hex c \<Longrightarrow> (of_char c :: nat) < 128"
  by (auto simp: lower_hex_def)

lemma valid_commit_ascii: "valid_commit c \<Longrightarrow> is_ascii (c @ [nl])"
  by (auto simp: valid_commit_iff is_ascii_def list_all_iff lower_hex_ascii)

lemma stamp_tag_run:
  assumes "valid_commit commit" "valid_tag tagname"
  shows "stamp_tag cfg self w commit tagname =
    (case clock w (ticks w) of
       None \<Rightarrow> (Raises ValueError, self,
                 w\<lparr>ticks := Suc (ticks w),
                   trace := trace w @ [Serialize_enter, Sig_time None, Serialize_exit]\<rparr>)
     | Some now \<Rightarrow>
        (if disk w = Open_fails \<or> disk w = Write_fails then
           (Raises OSError, self,
             w\<lparr>ticks := Suc (ticks w),
               trace := trace w @ [Serialize_enter, Sig_time (Some now), Serialize_exit]\<rparr>)
         else if disk w = Fsync_fails then
           (Raises OSError, self,
             w\<lparr>ticks := Suc (ticks w),
               hashes_work := hashes_work w @ commit @ [nl],
               trace := trace w @ [Serialize_enter, Sig_time (Some now),
                                   Log_write (commit @ [nl]), Serialize_exit]\<rparr>)
         else (case utc_string w now of
                 None \<Rightarrow> (Raises OverflowError, self, serialized_block w commit now)
               | Some isonow \<Rightarrow>
                   tag_reply (tag_object self commit tagname now)
                     (limited_sign cfg self (serialized_block w commit now) now commit
                        (tag_object self commit tagname now)))))"
  using assms valid_commit_ascii[OF assms(1)]
  by (cases "disk w")
     (simp_all add: stamp_tag_def sig_time_def log_commit_def emit_def serialized_block_def
      tag_reply_def Let_def split: option.splits)

lemma stamp_branch_run:
  assumes "valid_commit commit" "valid_commit tree"
    "case parent of None \<Rightarrow> True | Some p \<Rightarrow> valid_commit p"
  shows "stamp_branch cfg self w commit parent tree =
    (case clock w (ticks w) of
       None \<Rightarrow> (Raises ValueError, self,
                 w\<lparr>ticks := Suc (ticks w),
                   trace := trace w @ [Serialize_enter, Sig_time None, Serialize_exit]\<rparr>)
     | Some now \<Rightarrow>
        (if disk w = Open_fails \<or> disk w = Write_fails then
           (Raises OSError, self,
             w\<lparr>ticks := Suc (ticks w),
               trace := trace w @ [Serialize_enter, Sig_time (Some now), Serialize_exit]\<rparr>)
         else if disk w = Fsync_fails then
           (Raises OSError, self,
             w\<lparr>ticks := Suc (ticks w),
               hashes_work := hashes_work w @ commit @ [nl],
               trace := trace w @ [Serialize_enter, Sig_time (Some now),
                                   Log_write (commit @ [nl]), Serialize_exit]\<rparr>)
         else (case utc_string w now of
                 None \<Rightarrow> (Raises OverflowError, self, serialized_block w commit now)
               | Some isonow \<Rightarrow>
                   branch_reply (commitobj1 self commit parent tree now) (commitobj2 self isonow)
                     (limited_sign cfg self (serialized_block w commit now) now commit
                        (commitobj1 self commit parent tree now @ commitobj2 self isonow)))))"
  using assms valid_commit_ascii[OF assms(1)]
  unfolding stamp_branch_def branch_reply_def Let_def
  by (cases "disk w")
     (simp_all add: sig_time_def log_commit_def emit_def serialized_block_def
      split: option.splits)

lemma next_gpg_sem [simp]: "next_gpg cfg (self\<lparr>sem := x\<rparr>) = next_gpg cfg self"
  by (simp add: next_gpg_def)

lemma next_pool_sem [simp]: "next_pool cfg (self\<lparr>sem := x\<rparr>) = next_pool cfg self"
  by (simp add: next_pool_def)

lemma limited_sign_ok:
  assumes "0 < sem self" "sem self \<le> sem_initial self"
    "int (length (gpgs self)) < number_of_gpg_agents cfg \<or> gpgs self \<noteq> []"
    "gpg_sign w (next_gpg cfg self) data (keyid self) (faked_time_args now) = Some sig"
  shows "limited_sign cfg self w now commit data =
     (Returns (Some sig), self\<lparr>gpgs := next_pool cfg self\<rparr>,
      w\<lparr>links := (if int (length (gpgs self)) < number_of_gpg_agents cfg
                   then insert (length (gpgs self)) (links w) else links w),
        trace := trace w @ [Sem_acquire True]
                 @ (case extra_delay self of None \<Rightarrow> [] | Some d \<Rightarrow> if d = 0 then [] else [Sleep d])
                 @ [Gpg_next (next_gpg cfg self),
                    Gpg_sign (next_gpg cfg self) data (keyid self) (faked_time_args now),
                    Sem_release]\<rparr>)"
  using assms
  by (auto simp: limited_sign_def sem_acquire_def sem_release_op_def gpg_eq emit_def Let_def
      split: option.splits)


lemma world_of_tag_reply [simp]: "world_of (tag_reply b x) = world_of x"
  by (auto simp: world_of_def tag_reply_def split: prod.splits result.splits option.splits)

lemma world_of_branch_reply [simp]: "world_of (branch_reply a b x) = world_of x"
  by (auto simp: world_of_def branch_reply_def split: prod.splits result.splits option.splits)

lemma stamper_of_tag_reply [simp]: "stamper_of (tag_reply b x) = stamper_of x"
  by (auto simp: stamper_of_def tag_reply_def split: prod.splits result.splits option.splits)

lemma stamper_of_branch_reply [simp]: "stamper_of (branch_reply a b x) = stamper_of x"
  by (auto simp: stamper_of_def branch_reply_def split: prod.splits result.splits option.splits)

lemma result_of_tag_reply:
  "result_of (tag_reply b x) =
     (case result_of x of
        Returns None \<Rightarrow> Returns None_reply
      | Returns (Some sig) \<Rightarrow> Returns (Object (b @ sig))
      | Raises e \<Rightarrow> Raises e
      | Blocks \<Rightarrow> Blocks)"
  by (auto simp: result_of_def tag_reply_def split: prod.splits result.splits option.splits)

lemma result_of_branch_reply:
  "result_of (branch_reply a b x) =
     (case result_of x of
        Returns None \<Rightarrow> Returns None_reply
      | Returns (Some sig) \<Rightarrow>
          if last (gpgsig_header sig) = nl then Returns (Object (a @ gpgsig_header sig @ b))
          else Raises AssertionError
      | Raises e \<Rightarrow> Raises e
      | Blocks \<Rightarrow> Blocks)"
  by (auto simp: result_of_def branch_reply_def split: prod.splits result.splits option.splits)


lemma after_block:
  assumes c: "clock w (ticks w) = Some now"
  shows "request_logged commit w
           (world_of (limited_sign cfg self (serialized_block w commit now) now commit data))"
    and "drop 5 (events_of w (limited_sign cfg self (serialized_block w commit now) now commit data))
         = events_of (serialized_block w commit now)
             (limited_sign cfg self (serialized_block w commit now) now commit data)"
proof -
  let ?b = "serialized_block w commit now"
  obtain r self' w' where run: "limited_sign cfg self ?b now commit data = (r, self', w')"
    by (cases "limited_sign cfg self ?b now commit data") auto
  define evs where "evs = new_events ?b w'"
  have f: "hashes_work w' = hashes_work ?b" "trace w' = trace ?b @ evs"
    using limited_sign_frame [OF run] by (auto simp: evs_def)
  have e: "\<not> list_ex is_log_write evs" "\<not> list_ex is_sig_time evs"
    using limited_sign_events [OF run] by (auto simp: evs_def)
  have t: "trace w' = trace w @ [Serialize_enter, Sig_time (Some now), Log_write (commit @ [nl]),
      Log_fsync, Serialize_exit] @ evs"
    using f(2) by (simp add: serialized_block_def)
  have n: "new_events w w' = [Serialize_enter, Sig_time (Some now), Log_write (commit @ [nl]),
      Log_fsync, Serialize_exit] @ evs"
    by (simp add: new_events_def t)
  show "request_logged commit w (world_of (limited_sign cfg self ?b now commit data))"
  proof -
    have h: "hashes_work w' = hashes_work w @ commit @ [nl]"
      using f(1) by (simp add: serialized_block_def)
    have "request_logged commit w w'"
      using c h n e by (simp add: request_logged_def t)
    then show ?thesis by (simp add: run world_of_def)
  qed
  show "drop 5 (events_of w (limited_sign cfg self ?b now commit data))
         = events_of ?b (limited_sign cfg self ?b now commit data)"
    using n by (simp add: run world_of_def events_of_def evs_def)
qed


lemma tag_not_logged:
  assumes "valid_commit commit" "valid_tag tagname" "clock w (ticks w) = None \<or> disk w \<noteq> Disk_ok"
  shows "\<not> list_ex is_sign (events_of w (stamp_tag cfg self w commit tagname))
         \<and> (\<exists>e. result_of (stamp_tag cfg self w commit tagname) = Raises e)"
  using assms(3)
  by (cases "disk w")
     (auto simp: stamp_tag_run [OF assms(1,2)] events_of_def world_of_def result_of_def
       new_events_def split: option.splits)


lemma branch_not_logged:
  assumes "valid_commit commit" "valid_commit tree"
    "case parent of None \<Rightarrow> True | Some p \<Rightarrow> valid_commit p"
    "clock w (ticks w) = None \<or> disk w \<noteq> Disk_ok"
  shows "\<not> list_ex is_sign (events_of w (stamp_branch cfg self w commit parent tree))
         \<and> (\<exists>e. result_of (stamp_branch cfg self w commit parent tree) = Raises e)"
  using assms(4)
  by (cases "disk w")
     (auto simp: stamp_branch_run [OF assms(1,2,3)] events_of_def world_of_def result_of_def
       new_events_def split: option.splits)

lemma example_valid: "valid_commit example_commit" "valid_commit example_tree" "valid_tag ''rel1''"
proof -
  show "valid_commit example_commit" "valid_commit example_tree"
    by (simp_all add: valid_commit_iff example_commit_def example_tree_def lower_hex_def)
  have "\<not> str_in (code_points ''..'') (code_points ''rel1'')"
    by (simp add: code_points_def code_point_def)
  then have "\<not> (\<exists>ps ss. code_points ''rel1'' = ps @ code_points ''..'' @ ss)"
    using str_in_iff [of "code_points ''..''" "code_points ''rel1''"] by blast
  moreover have "code_point nl \<notin> set (code_points ''rel1'')
      \<and> tag_grammar python_letter (code_points ''rel1'')"
    by (simp add: tag_grammar_def python_letter_def ascii_letter_def code_points_def
          code_point_def)
  ultimately show "valid_tag ''rel1''"
    using valid_tag_cp_iff [of "code_points ''rel1''"] by (simp add: valid_tag_def)
qed


lemma example_tag_run:
  "stamp_tag example_cfg example_stamper example_world example_commit ''rel1'' =
     (Returns (Object
        (''object aaaaaaaaaaaaaaaaaaaaaaaaaaaaaaaaaaaaaaaa'' @ [nl]
         @ ''type commit'' @ [nl]
         @ ''tag rel1'' @ [nl]
         @ ''tagger Alice <alice@example.com> 1577836800 +0000'' @ [nl]
         @ [nl]
         @ ''https://example.org tag timestamp'' @ [nl]
         @ ''SIGLINE1'' @ [nl] @ ''SIGLINE2'' @ [nl])),
      example_stamper\<lparr>gpgs := [GPG_link 1, GPG_link 2, GPG_home]\<rparr>,
      example_world
        \<lparr>ticks := 1,
         hashes_work := ''aaaaaaaaaaaaaaaaaaaaaaaaaaaaaaaaaaaaaaaa'' @ [nl],
         trace :=
           [Serialize_enter, Sig_time (Some 1577836800),
            Log_write (''aaaaaaaaaaaaaaaaaaaaaaaaaaaaaaaaaaaaaaaa'' @ [nl]), Log_fsync,
            Serialize_exit, Sem_acquire True, Gpg_next GPG_home,
            Gpg_sign GPG_home
              (''object aaaaaaaaaaaaaaaaaaaaaaaaaaaaaaaaaaaaaaaa'' @ [nl]
               @ ''type commit'' @ [nl]
               @ ''tag rel1'' @ [nl]
               @ ''tagger Alice <alice@example.com> 1577836800 +0000'' @ [nl]
               @ [nl]
               @ ''https://example.org tag timestamp'' @ [nl])
              ''0xKEY'' [''--faked-system-time'', ''1577836800!''],
            Sem_release]\<rparr>)"
  using example_valid
  by (simp add: stamp_tag_def sig_time_def log_commit_def limited_sign_def sem_acquire_def
      sem_release_op_def gpg_def emit_def Let_def is_ascii_def tag_object_def
      faked_time_args_def str_int_example example_world_def example_stamper_def example_cfg_def
      example_sig_def example_commit_def)

lemma example_branch_run:
  "stamp_branch example_cfg example_stamper example_world example_commit None example_tree =
     (Returns (Object
        (''tree 0123456789abcdef0123456789abcdef01234567'' @ [nl]
         @ ''parent aaaaaaaaaaaaaaaaaaaaaaaaaaaaaaaaaaaaaaaa'' @ [nl]
         @ ''author Alice <alice@example.com> 1577836800 +0000'' @ [nl]
         @ ''committer Alice <alice@example.com> 1577836800 +0000'' @ [nl]
         @ ''gpgsig SIGLINE1'' @ [nl] @ '' SIGLINE2'' @ [nl]
         @ [nl]
         @ ''https://example.org branch timestamp 2020-01-01 00:00:00 UTC'' @ [nl])),
      example_stamper\<lparr>gpgs := [GPG_link 1, GPG_link 2, GPG_home]\<rparr>,
      example_world
        \<lparr>ticks := 1,
         hashes_work := ''aaaaaaaaaaaaaaaaaaaaaaaaaaaaaaaaaaaaaaaa'' @ [nl],
         trace :=
           [Serialize_enter, Sig_time (Some 1577836800),
            Log_write (''aaaaaaaaaaaaaaaaaaaaaaaaaaaaaaaaaaaaaaaa'' @ [nl]), Log_fsync,
            Serialize_exit, Sem_acquire True, Gpg_next GPG_home,
            Gpg_sign GPG_home
              (''tree 0123456789abcdef0123456789abcdef01234567'' @ [nl]
               @ ''parent aaaaaaaaaaaaaaaaaaaaaaaaaaaaaaaaaaaaaaaa'' @ [nl]
               @ ''author Alice <alice@example.com> 1577836800 +0000'' @ [nl]
               @ ''committer Alice <alice@example.com> 1577836800 +0000'' @ [nl]
               @ [nl]
               @ ''https://example.org branch timestamp 2020-01-01 00:00:00 UTC'' @ [nl])
              ''0xKEY'' [''--faked-system-time'', ''1577836800!''],
            Sem_release]\<rparr>)"
  using example_valid
  by (simp add: stamp_branch_def sig_time_def log_commit_def limited_sign_def sem_acquire_def
      sem_release_op_def gpg_def emit_def Let_def is_ascii_def commitobj1_def commitobj2_def
      gpgsig_header_def replace_char_def
      faked_time_args_def str_int_example example_world_def example_stamper_def example_cfg_def
      example_sig_def example_commit_def example_tree_def)

lemma stamp_tag_rejects:
  "\<not> (valid_commit commit \<and> valid_tag tagname) \<Longrightarrow>
     stamp_tag cfg self w commit tagname = (Returns Code_406, self, w)"
  unfolding stamp_tag_def by (rule if_not_P)

lemma stamp_branch_rejects:
  "\<not> (valid_commit commit \<and> valid_commit tree
        \<and> (case parent of None \<Rightarrow> True | Some p \<Rightarrow> valid_commit p)) \<Longrightarrow>
     stamp_branch cfg self w commit parent tree = (Returns Code_406, self, w)"
  unfolding stamp_branch_def by (rule if_not_P)



section \<open>Logging before signing\<close>



section \<open>The unavailable outcome\<close>

lemma tag_returns:
  assumes "result_of (stamp_tag cfg self w commit tagname) = Returns x" "x \<noteq> Code_406"
  obtains now isonow where "valid_commit commit" "valid_tag tagname"
    "clock w (ticks w) = Some now" "disk w = Disk_ok" "utc_string w now = Some isonow"
    "stamp_tag cfg self w commit tagname =
       tag_reply (tag_object self commit tagname now)
         (limited_sign cfg self (serialized_block w commit now) now commit
            (tag_object self commit tagname now))"
proof -
  have v: "valid_commit commit \<and> valid_tag tagname"
  proof (rule ccontr)
    assume "\<not> (valid_commit commit \<and> valid_tag tagname)"
    then show False using assms by (simp add: stamp_tag_rejects result_of_def)
  qed
  then have v1: "valid_commit commit" and v2: "valid_tag tagname" by auto
  note run = stamp_tag_run [OF v1 v2, of cfg self w]
  obtain now where c: "clock w (ticks w) = Some now"
    using assms(1) by (cases "clock w (ticks w)") (auto simp: run result_of_def)
  have d: "disk w = Disk_ok"
    using assms(1) c by (cases "disk w") (auto simp: run result_of_def)
  obtain isonow where u: "utc_string w now = Some isonow"
    using assms(1) c d by (cases "utc_string w now") (auto simp: run result_of_def)
  show thesis
    using that [OF v1 v2 c d u] c d u by (simp add: run)
qed

lemma branch_returns:
  assumes "result_of (stamp_branch cfg self w commit parent tree) = Returns x" "x \<noteq> Code_406"
  obtains now isonow where "valid_commit commit" "valid_commit tree"
    "case parent of None \<Rightarrow> True | Some p \<Rightarrow> valid_commit p"
    "clock w (ticks w) = Some now" "disk w = Disk_ok" "utc_string w now = Some isonow"
    "stamp_branch cfg self w commit parent tree =
       branch_reply (commitobj1 self commit parent tree now) (commitobj2 self isonow)
         (limited_sign cfg self (serialized_block w commit now) now commit
            (commitobj1 self commit parent tree now @ commitobj2 self isonow))"
proof -
  have v: "valid_commit commit \<and> valid_commit tree
        \<and> (case parent of None \<Rightarrow> True | Some p \<Rightarrow> valid_commit p)"
  proof (rule ccontr)
    assume "\<not> (valid_commit commit \<and> valid_commit tree
        \<and> (case parent of None \<Rightarrow> True | Some p \<Rightarrow> valid_commit p))"
    then show False using assms by (simp add: stamp_branch_rejects result_of_def)
  qed
  then have v1: "valid_commit commit" and v2: "valid_commit tree"
    and v3: "case parent of None \<Rightarrow> True | Some p \<Rightarrow> valid_commit p" by auto
  note run = stamp_branch_run [OF v1 v2 v3, of cfg self w]
  obtain now where c: "clock w (ticks w) = Some now"
    using assms(1) by (cases "clock w (ticks w)") (auto simp: run result_of_def)
  have d: "disk w = Disk_ok"
    using assms(1) c by (cases "disk w") (auto simp: run result_of_def)
  obtain isonow where u: "utc_string w now = Some isonow"
    using assms(1) c d by (cases "utc_string w now") (auto simp: run result_of_def)
  show thesis
    using that [OF v1 v2 v3 c d u] c d u by (simp add: run)
qed










section \<open>The signed objects\<close>

lemma tag_object_eq: "tag_object self commit tagname now = tag_body commit tagname (fullid self) now (url self)"
  by (simp add: tag_object_def tag_body_def text_of_lines_def)

lemma commitobj1_eq:
  "commitobj1 self commit parent tree now =
     commit_part1 tree (case parent of None \<Rightarrow> [commit] | Some p \<Rightarrow> [p, commit]) (fullid self) now"
  by (simp add: commitobj1_def commit_part1_def text_of_lines_def split: option.splits)

lemma commitobj2_eq: "commitobj2 self isonow = commit_part2 (url self) isonow"
  by (simp add: commitobj2_def commit_part2_def text_of_lines_def)

lemma limited_sign_some:
  assumes "result_of (limited_sign cfg self w now commit data) = Returns (Some sig)"
  shows "\<exists>g. filter is_sign (events_of w (limited_sign cfg self w now commit data))
               = [Gpg_sign g data (keyid self) (faked_time_args now)]
             \<and> gpg_sign w g data (keyid self) (faked_time_args now) = Some sig"
proof -
  obtain r self' w' where run: "limited_sign cfg self w now commit data = (r, self', w')"
    by (cases "limited_sign cfg self w now commit data") auto
  then have "r = Returns (Some sig)" using assms by (simp add: result_of_def)
  then have "\<exists>g. filter is_sign (new_events w w')
               = [Gpg_sign g data (keyid self) (faked_time_args now)]
             \<and> gpg_sign w g data (keyid self) (faked_time_args now) = Some sig"
    using limited_sign_events [OF run] by blast
  then show ?thesis by (simp add: run events_of_def world_of_def)
qed

lemma limited_sign_signs:
  "filter is_sign (events_of w (limited_sign cfg self w now commit data)) = []
   \<or> (\<exists>g. filter is_sign (events_of w (limited_sign cfg self w now commit data))
               = [Gpg_sign g data (keyid self) (faked_time_args now)])"
proof -
  obtain r self' w' where run: "limited_sign cfg self w now commit data = (r, self', w')"
    by (cases "limited_sign cfg self w now commit data") auto
  have "filter is_sign (new_events w w') = []
     \<or> (\<exists>g. filter is_sign (new_events w w') = [Gpg_sign g data (keyid self) (faked_time_args now)])"
    using limited_sign_events [OF run] by blast
  then show ?thesis by (simp add: run events_of_def world_of_def)
qed

lemma events_after_block:
  assumes c: "clock w (ticks w) = Some now"
  shows "events_of w (limited_sign cfg self (serialized_block w commit now) now commit data)
         = [Serialize_enter, Sig_time (Some now), Log_write (commit @ [nl]), Log_fsync,
            Serialize_exit]
           @ events_of (serialized_block w commit now)
               (limited_sign cfg self (serialized_block w commit now) now commit data)"
proof -
  let ?L = "limited_sign cfg self (serialized_block w commit now) now commit data"
  have "request_logged commit w (world_of ?L)" by (rule after_block(1) [OF c])
  then have "take 5 (events_of w ?L) = [Serialize_enter, Sig_time (Some now),
      Log_write (commit @ [nl]), Log_fsync, Serialize_exit]"
    using c by (simp add: request_logged_def events_of_def)
  moreover have "drop 5 (events_of w ?L) = events_of (serialized_block w commit now) ?L"
    by (rule after_block(2) [OF c])
  ultimately show ?thesis
    using append_take_drop_id [of 5 "events_of w ?L"] by simp
qed

lemma events_of_tag_reply [simp]: "events_of w (tag_reply b x) = events_of w x"
  by (simp add: events_of_def)

lemma events_of_branch_reply [simp]: "events_of w (branch_reply a b x) = events_of w x"
  by (simp add: events_of_def)

lemma gpg_sign_block [simp]: "gpg_sign (serialized_block w commit now) = gpg_sign w"
  by (simp add: serialized_block_def)

lemma tag_object_returned:
  assumes "result_of (stamp_tag cfg self w commit tagname) = Returns (Object obj)"
  shows "\<exists>now sig g. clock w (ticks w) = Some now
           \<and> filter is_sign (events_of w (stamp_tag cfg self w commit tagname))
               = [Gpg_sign g (tag_object self commit tagname now) (keyid self) (faked_time_args now)]
           \<and> gpg_sign w g (tag_object self commit tagname now) (keyid self) (faked_time_args now)
               = Some sig
           \<and> obj = tag_object self commit tagname now @ sig"
proof -
  from assms obtain now isonow where c: "clock w (ticks w) = Some now"
    and eq: "stamp_tag cfg self w commit tagname =
       tag_reply (tag_object self commit tagname now)
         (limited_sign cfg self (serialized_block w commit now) now commit
            (tag_object self commit tagname now))"
    by (rule tag_returns) simp_all
  let ?L = "limited_sign cfg self (serialized_block w commit now) now commit
            (tag_object self commit tagname now)"
  obtain sig where s: "result_of ?L = Returns (Some sig)" "obj = tag_object self commit tagname now @ sig"
    using assms unfolding eq result_of_tag_reply
    by (auto split: result.splits option.splits)
  obtain g where g: "filter is_sign (events_of (serialized_block w commit now) ?L)
               = [Gpg_sign g (tag_object self commit tagname now) (keyid self) (faked_time_args now)]"
      "gpg_sign w g (tag_object self commit tagname now) (keyid self) (faked_time_args now) = Some sig"
    using limited_sign_some [OF s(1)] by auto
  have "filter is_sign (events_of w (stamp_tag cfg self w commit tagname))
      = [Gpg_sign g (tag_object self commit tagname now) (keyid self) (faked_time_args now)]"
    by (simp add: eq events_after_block [OF c] g(1))
  then show ?thesis using c g(2) s(2) by blast
qed

lemma tag_succeeds:
  assumes "valid_commit commit" "valid_tag tagname" "clock w (ticks w) = Some now"
    "disk w = Disk_ok" "utc_string w now \<noteq> None" "0 < sem self" "sem self \<le> sem_initial self"
    "int (length (gpgs self)) < number_of_gpg_agents cfg \<or> gpgs self \<noteq> []"
    "gpg_sign w (next_gpg cfg self) (tag_object self commit tagname now) (keyid self)
       (faked_time_args now) = Some sig"
  shows "result_of (stamp_tag cfg self w commit tagname)
         = Returns (Object (tag_object self commit tagname now @ sig))"
proof -
  obtain isonow where u: "utc_string w now = Some isonow" using assms(5) by auto
  have "limited_sign cfg self (serialized_block w commit now) now commit
          (tag_object self commit tagname now)
        = (Returns (Some sig), self\<lparr>gpgs := next_pool cfg self\<rparr>,
           (serialized_block w commit now)
           \<lparr>links := (if int (length (gpgs self)) < number_of_gpg_agents cfg
                   then insert (length (gpgs self)) (links (serialized_block w commit now))
                   else links (serialized_block w commit now)),
             trace := trace (serialized_block w commit now) @ [Sem_acquire True]
                 @ (case extra_delay self of None \<Rightarrow> [] | Some d \<Rightarrow> if d = 0 then [] else [Sleep d])
                 @ [Gpg_next (next_gpg cfg self),
                    Gpg_sign (next_gpg cfg self) (tag_object self commit tagname now) (keyid self)
                       (faked_time_args now),
                    Sem_release]\<rparr>)"
    by (rule limited_sign_ok) (simp_all add: assms)
  then show ?thesis
    using u assms(3,4)
    by (simp add: stamp_tag_run [OF assms(1,2)] tag_reply_def result_of_def)
qed

lemma example_tag_result:
  "result_of (stamp_tag example_cfg example_stamper example_world example_commit ''rel1'') =
     Returns (Object
        (''object aaaaaaaaaaaaaaaaaaaaaaaaaaaaaaaaaaaaaaaa'' @ [nl]
         @ ''type commit'' @ [nl]
         @ ''tag rel1'' @ [nl]
         @ ''tagger Alice <alice@example.com> 1577836800 +0000'' @ [nl]
         @ [nl]
         @ ''https://example.org tag timestamp'' @ [nl]
         @ ''SIGLINE1'' @ [nl] @ ''SIGLINE2'' @ [nl]))"
  by (simp only: example_tag_run result_of_def fst_conv)

lemma example_branch_result:
  "result_of (stamp_branch example_cfg example_stamper example_world example_commit None
       example_tree) =
     Returns (Object
        (''tree 0123456789abcdef0123456789abcdef01234567'' @ [nl]
         @ ''parent aaaaaaaaaaaaaaaaaaaaaaaaaaaaaaaaaaaaaaaa'' @ [nl]
         @ ''author Alice <alice@example.com> 1577836800 +0000'' @ [nl]
         @ ''committer Alice <alice@example.com> 1577836800 +0000'' @ [nl]
         @ ''gpgsig SIGLINE1'' @ [nl] @ '' SIGLINE2'' @ [nl]
         @ [nl]
         @ ''https://example.org branch timestamp 2020-01-01 00:00:00 UTC'' @ [nl]))"
  by (simp only: example_branch_run result_of_def fst_conv)

text \<open>
  C8. Whenever \<open>stamp_tag\<close> returns an object, its text is the tag body followed by the
  text of the signature, and the one signing call of the request was made on exactly that
  body and gave that signature. The body is the lines \<open>object <commit>\<close>, \<open>type commit\<close>,
  \<open>tag <tagname>\<close>, \<open>tagger <identity> <timestamp> +0000\<close>, an empty line and
  \<open><url> tag timestamp\<close>, each ended by a newline. A valid request returns such an object
  when the clock, the log, the time formatting, the semaphore, the pool and the signer
  all succeed.
\<close>

theorem tag_object_text:
  "(result_of (stamp_tag cfg self w commit tagname) = Returns (Object obj) \<longrightarrow>
      (\<exists>now sig g. clock w (ticks w) = Some now
         \<and> filter is_sign (events_of w (stamp_tag cfg self w commit tagname))
             = [Gpg_sign g (tag_body commit tagname (fullid self) now (url self)) (keyid self)
                  (faked_time_args now)]
         \<and> gpg_sign w g (tag_body commit tagname (fullid self) now (url self)) (keyid self)
              (faked_time_args now) = Some sig
         \<and> obj = tag_body commit tagname (fullid self) now (url self) @ sig))
   \<and> (valid_commit commit \<and> valid_tag tagname \<and> clock w (ticks w) = Some t \<and> disk w = Disk_ok
        \<and> utc_string w t \<noteq> None \<and> 0 < sem self \<and> sem self \<le> sem_initial self
        \<and> (int (length (gpgs self)) < number_of_gpg_agents cfg \<or> gpgs self \<noteq> [])
        \<and> gpg_sign w (next_gpg cfg self) (tag_body commit tagname (fullid self) t (url self))
             (keyid self) (faked_time_args t) = Some s \<longrightarrow>
      result_of (stamp_tag cfg self w commit tagname)
        = Returns (Object (tag_body commit tagname (fullid self) t (url self) @ s)))
   \<and> tag_body commit tagname identity timestamp own =
        ''object '' @ commit @ [nl]
        @ ''type commit'' @ [nl]
        @ ''tag '' @ tagname @ [nl]
        @ ''tagger '' @ identity @ '' '' @ str_int timestamp @ '' +0000'' @ [nl]
        @ [nl]
        @ own @ '' tag timestamp'' @ [nl]"
proof (intro conjI impI)
  assume "result_of (stamp_tag cfg self w commit tagname) = Returns (Object obj)"
  then show "\<exists>now sig g. clock w (ticks w) = Some now
         \<and> filter is_sign (events_of w (stamp_tag cfg self w commit tagname))
             = [Gpg_sign g (tag_body commit tagname (fullid self) now (url self)) (keyid self)
                  (faked_time_args now)]
         \<and> gpg_sign w g (tag_body commit tagname (fullid self) now (url self)) (keyid self)
              (faked_time_args now) = Some sig
         \<and> obj = tag_body commit tagname (fullid self) now (url self) @ sig"
    using tag_object_returned [of cfg self w commit tagname obj]
    by (simp only: tag_object_eq)
next
  assume "valid_commit commit \<and> valid_tag tagname \<and> clock w (ticks w) = Some t \<and> disk w = Disk_ok
        \<and> utc_string w t \<noteq> None \<and> 0 < sem self \<and> sem self \<le> sem_initial self
        \<and> (int (length (gpgs self)) < number_of_gpg_agents cfg \<or> gpgs self \<noteq> [])
        \<and> gpg_sign w (next_gpg cfg self) (tag_body commit tagname (fullid self) t (url self))
             (keyid self) (faked_time_args t) = Some s"
  then show "result_of (stamp_tag cfg self w commit tagname)
        = Returns (Object (tag_body commit tagname (fullid self) t (url self) @ s))"
    unfolding tag_object_eq [symmetric] by (elim conjE) (rule tag_succeeds)
next
  show "tag_body commit tagname identity timestamp own =
        ''object '' @ commit @ [nl]
        @ ''type commit'' @ [nl]
        @ ''tag '' @ tagname @ [nl]
        @ ''tagger '' @ identity @ '' '' @ str_int timestamp @ '' +0000'' @ [nl]
        @ [nl]
        @ own @ '' tag timestamp'' @ [nl]"
    by (simp add: tag_body_def text_of_lines_def)
qed

theorem tag_object_text_witness:
  "(\<exists>now sig g. clock example_world (ticks example_world) = Some now
         \<and> filter is_sign (events_of example_world
              (stamp_tag example_cfg example_stamper example_world example_commit ''rel1''))
             = [Gpg_sign g (tag_body example_commit ''rel1'' (fullid example_stamper) now
                  (url example_stamper)) (keyid example_stamper) (faked_time_args now)]
         \<and> gpg_sign example_world g
              (tag_body example_commit ''rel1'' (fullid example_stamper) now (url example_stamper))
              (keyid example_stamper) (faked_time_args now) = Some sig
         \<and> ''object aaaaaaaaaaaaaaaaaaaaaaaaaaaaaaaaaaaaaaaa'' @ [nl]
           @ ''type commit'' @ [nl]
           @ ''tag rel1'' @ [nl]
           @ ''tagger Alice <alice@example.com> 1577836800 +0000'' @ [nl]
           @ [nl]
           @ ''https://example.org tag timestamp'' @ [nl]
           @ ''SIGLINE1'' @ [nl] @ ''SIGLINE2'' @ [nl]
           = tag_body example_commit ''rel1'' (fullid example_stamper) now (url example_stamper)
             @ sig)
   \<and> result_of (stamp_tag example_cfg example_stamper example_world example_commit ''rel1'')
       = Returns (Object (tag_body example_commit ''rel1'' (fullid example_stamper) 1577836800
           (url example_stamper) @ example_sig))"
proof (rule conjI)
  show "result_of (stamp_tag example_cfg example_stamper example_world example_commit ''rel1'')
       = Returns (Object (tag_body example_commit ''rel1'' (fullid example_stamper) 1577836800
           (url example_stamper) @ example_sig))"
    by (rule tag_object_text [THEN conjunct2, THEN conjunct1, rule_format])
       (simp add: example_valid example_world_def example_stamper_def example_cfg_def)
qed (rule tag_object_text [THEN conjunct1, rule_format, OF example_tag_result])

lemma replace_char_append:
  "replace_char c r (a @ b) = replace_char c r a @ replace_char c r b"
  by (simp add: replace_char_def)

lemma replace_char_id: "c \<notin> set a \<Longrightarrow> replace_char c r a = a"
  by (induction a) (auto simp: replace_char_def)

lemma replace_char_single: "replace_char c r [c] = r"
  by (simp add: replace_char_def)

lemma replace_nl_last:
  "s \<noteq> [] \<Longrightarrow> last (replace_char nl [nl, CHR '' ''] s) \<noteq> nl"
proof (induction s rule: rev_induct)
  case Nil
  then show ?case by simp
next
  case (snoc x xs)
  then show ?case by (simp add: replace_char_append) (simp add: replace_char_def)
qed

lemma gpgsig_header_newline:
  "gpgsig_header (body @ [nl]) = ''gpgsig '' @ replace_char nl [nl, CHR '' ''] body @ [nl]"
proof -
  have "replace_char nl [nl, CHR '' ''] (body @ [nl])
        = (replace_char nl [nl, CHR '' ''] body @ [nl]) @ [CHR '' '']"
    by (simp add: replace_char_append replace_char_single)
  then have "butlast (replace_char nl [nl, CHR '' ''] (body @ [nl]))
        = replace_char nl [nl, CHR '' ''] body @ [nl]"
    by (simp only: butlast_snoc)
  then show ?thesis by (simp add: gpgsig_header_def)
qed

lemma gpgsig_assert:
  "last (gpgsig_header sig) = nl \<longleftrightarrow> (\<exists>body. sig = body @ [nl])"
proof
  assume a: "last (gpgsig_header sig) = nl"
  show "\<exists>body. sig = body @ [nl]"
  proof (cases sig rule: rev_cases)
    case Nil
    then show ?thesis using a by (simp add: gpgsig_header_def replace_char_def)
  next
    case (snoc body c)
    show ?thesis
    proof (cases "c = nl")
      case True
      then show ?thesis using snoc by simp
    next
      case False
      then have b: "butlast (replace_char nl [nl, CHR '' ''] sig) = replace_char nl [nl, CHR '' ''] body"
        using snoc by (simp add: replace_char_append) (simp add: replace_char_def)
      show ?thesis
      proof (cases "body = []")
        case True
        then show ?thesis using a b by (simp add: gpgsig_header_def replace_char_def)
      next
        case False
        then have "replace_char nl [nl, CHR '' ''] body \<noteq> []"
          by (cases body) (auto simp: replace_char_def)
        then have "last (gpgsig_header sig) = last (replace_char nl [nl, CHR '' ''] body)"
          using b by (simp add: gpgsig_header_def)
        then show ?thesis using a replace_nl_last [OF False] by simp
      qed
    qed
  qed
next
  assume "\<exists>body. sig = body @ [nl]"
  then obtain body where "sig = body @ [nl]" by auto
  then show "last (gpgsig_header sig) = nl" by (simp add: gpgsig_header_newline)
qed

lemma branch_object_returned:
  assumes "result_of (stamp_branch cfg self w commit parent tree) = Returns (Object obj)"
  shows "\<exists>now isonow body g. clock w (ticks w) = Some now \<and> utc_string w now = Some isonow
           \<and> filter is_sign (events_of w (stamp_branch cfg self w commit parent tree))
               = [Gpg_sign g (commitobj1 self commit parent tree now @ commitobj2 self isonow)
                    (keyid self) (faked_time_args now)]
           \<and> gpg_sign w g (commitobj1 self commit parent tree now @ commitobj2 self isonow)
                (keyid self) (faked_time_args now) = Some (body @ [nl])
           \<and> obj = commitobj1 self commit parent tree now @ gpgsig_header (body @ [nl])
                   @ commitobj2 self isonow"
proof -
  from assms obtain now isonow where c: "clock w (ticks w) = Some now"
    and u: "utc_string w now = Some isonow"
    and eq: "stamp_branch cfg self w commit parent tree =
       branch_reply (commitobj1 self commit parent tree now) (commitobj2 self isonow)
         (limited_sign cfg self (serialized_block w commit now) now commit
            (commitobj1 self commit parent tree now @ commitobj2 self isonow))"
    by (rule branch_returns) simp_all
  let ?data = "commitobj1 self commit parent tree now @ commitobj2 self isonow"
  let ?L = "limited_sign cfg self (serialized_block w commit now) now commit ?data"
  obtain sig where s: "result_of ?L = Returns (Some sig)" "last (gpgsig_header sig) = nl"
      "obj = commitobj1 self commit parent tree now @ gpgsig_header sig @ commitobj2 self isonow"
    using assms unfolding eq result_of_branch_reply
    by (auto split: result.splits option.splits if_splits)
  obtain body where b: "sig = body @ [nl]" using s(2) gpgsig_assert by blast
  obtain g where g: "filter is_sign (events_of (serialized_block w commit now) ?L)
               = [Gpg_sign g ?data (keyid self) (faked_time_args now)]"
      "gpg_sign w g ?data (keyid self) (faked_time_args now) = Some sig"
    using limited_sign_some [OF s(1)] by auto
  have "filter is_sign (events_of w (stamp_branch cfg self w commit parent tree))
      = [Gpg_sign g ?data (keyid self) (faked_time_args now)]"
    by (simp add: eq events_after_block [OF c] g(1))
  then show ?thesis using c u g(2) s(3) b by blast
qed

lemma branch_succeeds:
  assumes "valid_commit commit" "valid_commit tree"
    "case parent of None \<Rightarrow> True | Some p \<Rightarrow> valid_commit p"
    "clock w (ticks w) = Some now"
    "disk w = Disk_ok" "utc_string w now = Some isonow" "0 < sem self" "sem self \<le> sem_initial self"
    "int (length (gpgs self)) < number_of_gpg_agents cfg \<or> gpgs self \<noteq> []"
    "gpg_sign w (next_gpg cfg self) (commitobj1 self commit parent tree now @ commitobj2 self isonow)
       (keyid self) (faked_time_args now) = Some (body @ [nl])"
  shows "result_of (stamp_branch cfg self w commit parent tree)
         = Returns (Object (commitobj1 self commit parent tree now @ gpgsig_header (body @ [nl])
                            @ commitobj2 self isonow))"
proof -
  let ?data = "commitobj1 self commit parent tree now @ commitobj2 self isonow"
  have a: "last (gpgsig_header (body @ [nl])) = nl" by (simp add: gpgsig_header_newline)
  have "limited_sign cfg self (serialized_block w commit now) now commit ?data
        = (Returns (Some (body @ [nl])), self\<lparr>gpgs := next_pool cfg self\<rparr>,
           (serialized_block w commit now)
           \<lparr>links := (if int (length (gpgs self)) < number_of_gpg_agents cfg
                   then insert (length (gpgs self)) (links (serialized_block w commit now))
                   else links (serialized_block w commit now)),
             trace := trace (serialized_block w commit now) @ [Sem_acquire True]
                 @ (case extra_delay self of None \<Rightarrow> [] | Some d \<Rightarrow> if d = 0 then [] else [Sleep d])
                 @ [Gpg_next (next_gpg cfg self),
                    Gpg_sign (next_gpg cfg self) ?data (keyid self) (faked_time_args now),
                    Sem_release]\<rparr>)"
    by (rule limited_sign_ok) (simp_all add: assms)
  then show ?thesis
    using assms(4,5,6) a
    by (simp add: stamp_branch_run [OF assms(1,2,3)] branch_reply_def result_of_def)
qed

text \<open>
  C7. For a signature text that ends in a newline, the header is \<open>gpgsig\<close> and a space, then
  the signature with each newline before the last replaced by a newline and a space, then the
  last newline as it is. The replacement is the identity on a text without newline and puts a
  newline and a space for each newline. The two-line example embeds as stated. Whenever
  \<open>stamp_branch\<close> returns an object, its text is the first part, the header of the signature
  and the second part, where the signature is what the one signing call gave for the first
  part followed by the second, and it ends in a newline. A valid request returns such an
  object when nothing in the environment fails and the signature ends in a newline.
\<close>

theorem gpgsig_embedding:
  "gpgsig_header (body @ [nl]) = ''gpgsig '' @ replace_char nl [nl, CHR '' ''] body @ [nl]
   \<and> replace_char nl [nl, CHR '' ''] (a @ [nl] @ b)
       = replace_char nl [nl, CHR '' ''] a @ [nl, CHR '' ''] @ replace_char nl [nl, CHR '' ''] b
   \<and> (nl \<notin> set a \<longrightarrow> replace_char nl [nl, CHR '' ''] a = a)
   \<and> gpgsig_header (''SIGLINE1'' @ [nl] @ ''SIGLINE2'' @ [nl])
       = ''gpgsig SIGLINE1'' @ [nl] @ '' SIGLINE2'' @ [nl]
   \<and> (result_of (stamp_branch cfg self w commit parent tree) = Returns (Object obj) \<longrightarrow>
        (\<exists>now isonow sigbody g. clock w (ticks w) = Some now \<and> utc_string w now = Some isonow
           \<and> filter is_sign (events_of w (stamp_branch cfg self w commit parent tree))
               = [Gpg_sign g (commitobj1 self commit parent tree now @ commitobj2 self isonow)
                    (keyid self) (faked_time_args now)]
           \<and> gpg_sign w g (commitobj1 self commit parent tree now @ commitobj2 self isonow)
                (keyid self) (faked_time_args now) = Some (sigbody @ [nl])
           \<and> obj = commitobj1 self commit parent tree now @ gpgsig_header (sigbody @ [nl])
                   @ commitobj2 self isonow))
   \<and> (valid_commit commit \<and> valid_commit tree
        \<and> (case parent of None \<Rightarrow> True | Some p \<Rightarrow> valid_commit p)
        \<and> clock w (ticks w) = Some t \<and> disk w = Disk_ok \<and> utc_string w t = Some ts
        \<and> 0 < sem self \<and> sem self \<le> sem_initial self
        \<and> (int (length (gpgs self)) < number_of_gpg_agents cfg \<or> gpgs self \<noteq> [])
        \<and> gpg_sign w (next_gpg cfg self) (commitobj1 self commit parent tree t @ commitobj2 self ts)
             (keyid self) (faked_time_args t) = Some (body @ [nl]) \<longrightarrow>
        result_of (stamp_branch cfg self w commit parent tree)
          = Returns (Object (commitobj1 self commit parent tree t @ gpgsig_header (body @ [nl])
                             @ commitobj2 self ts)))"
proof (intro conjI impI)
  show "gpgsig_header (body @ [nl]) = ''gpgsig '' @ replace_char nl [nl, CHR '' ''] body @ [nl]"
    by (rule gpgsig_header_newline)
  show "replace_char nl [nl, CHR '' ''] (a @ [nl] @ b)
       = replace_char nl [nl, CHR '' ''] a @ [nl, CHR '' ''] @ replace_char nl [nl, CHR '' ''] b"
    by (simp only: replace_char_append replace_char_single)
  show "gpgsig_header (''SIGLINE1'' @ [nl] @ ''SIGLINE2'' @ [nl])
       = ''gpgsig SIGLINE1'' @ [nl] @ '' SIGLINE2'' @ [nl]"
    by (simp add: gpgsig_header_def replace_char_def)
next
  assume "nl \<notin> set a"
  then show "replace_char nl [nl, CHR '' ''] a = a" by (rule replace_char_id)
next
  assume "result_of (stamp_branch cfg self w commit parent tree) = Returns (Object obj)"
  then show "\<exists>now isonow sigbody g. clock w (ticks w) = Some now \<and> utc_string w now = Some isonow
           \<and> filter is_sign (events_of w (stamp_branch cfg self w commit parent tree))
               = [Gpg_sign g (commitobj1 self commit parent tree now @ commitobj2 self isonow)
                    (keyid self) (faked_time_args now)]
           \<and> gpg_sign w g (commitobj1 self commit parent tree now @ commitobj2 self isonow)
                (keyid self) (faked_time_args now) = Some (sigbody @ [nl])
           \<and> obj = commitobj1 self commit parent tree now @ gpgsig_header (sigbody @ [nl])
                   @ commitobj2 self isonow"
    by (rule branch_object_returned)
next
  assume "valid_commit commit \<and> valid_commit tree
        \<and> (case parent of None \<Rightarrow> True | Some p \<Rightarrow> valid_commit p)
        \<and> clock w (ticks w) = Some t \<and> disk w = Disk_ok \<and> utc_string w t = Some ts
        \<and> 0 < sem self \<and> sem self \<le> sem_initial self
        \<and> (int (length (gpgs self)) < number_of_gpg_agents cfg \<or> gpgs self \<noteq> [])
        \<and> gpg_sign w (next_gpg cfg self) (commitobj1 self commit parent tree t @ commitobj2 self ts)
             (keyid self) (faked_time_args t) = Some (body @ [nl])"
  then show "result_of (stamp_branch cfg self w commit parent tree)
          = Returns (Object (commitobj1 self commit parent tree t @ gpgsig_header (body @ [nl])
                             @ commitobj2 self ts))"
    by (elim conjE) (rule branch_succeeds)
qed

theorem gpgsig_embedding_witness:
  "(\<exists>now isonow sigbody g.
       clock example_world (ticks example_world) = Some now
     \<and> utc_string example_world now = Some isonow
     \<and> filter is_sign (events_of example_world
          (stamp_branch example_cfg example_stamper example_world example_commit None
             example_tree))
         = [Gpg_sign g (commitobj1 example_stamper example_commit None example_tree now
                        @ commitobj2 example_stamper isonow)
              (keyid example_stamper) (faked_time_args now)]
     \<and> gpg_sign example_world g
          (commitobj1 example_stamper example_commit None example_tree now
           @ commitobj2 example_stamper isonow)
          (keyid example_stamper) (faked_time_args now) = Some (sigbody @ [nl])
     \<and> ''tree 0123456789abcdef0123456789abcdef01234567'' @ [nl]
         @ ''parent aaaaaaaaaaaaaaaaaaaaaaaaaaaaaaaaaaaaaaaa'' @ [nl]
         @ ''author Alice <alice@example.com> 1577836800 +0000'' @ [nl]
         @ ''committer Alice <alice@example.com> 1577836800 +0000'' @ [nl]
         @ ''gpgsig SIGLINE1'' @ [nl] @ '' SIGLINE2'' @ [nl]
         @ [nl]
         @ ''https://example.org branch timestamp 2020-01-01 00:00:00 UTC'' @ [nl]
       = commitobj1 example_stamper example_commit None example_tree now
         @ gpgsig_header (sigbody @ [nl]) @ commitobj2 example_stamper isonow)
   \<and> result_of (stamp_branch example_cfg example_stamper example_world example_commit None
        example_tree)
       = Returns (Object
           (commitobj1 example_stamper example_commit None example_tree 1577836800
            @ gpgsig_header ((''SIGLINE1'' @ [nl] @ ''SIGLINE2'') @ [nl])
            @ commitobj2 example_stamper ''2020-01-01 00:00:00 UTC''))
   \<and> replace_char nl [nl, CHR '' ''] ''SIGLINE1'' = ''SIGLINE1''"
proof (intro conjI)
  note t = gpgsig_embedding [where body = "''SIGLINE1'' @ [nl] @ ''SIGLINE2''" and a = "''SIGLINE1''"
      and cfg = example_cfg and self = example_stamper and w = example_world
      and commit = example_commit and parent = None and tree = example_tree and t = 1577836800
      and ts = "''2020-01-01 00:00:00 UTC''"]
  show "result_of (stamp_branch example_cfg example_stamper example_world example_commit None
        example_tree)
       = Returns (Object
           (commitobj1 example_stamper example_commit None example_tree 1577836800
            @ gpgsig_header ((''SIGLINE1'' @ [nl] @ ''SIGLINE2'') @ [nl])
            @ commitobj2 example_stamper ''2020-01-01 00:00:00 UTC''))"
    by (rule t [THEN conjunct2, THEN conjunct2, THEN conjunct2, THEN conjunct2, THEN conjunct2,
          rule_format])
       (simp add: example_valid example_world_def example_stamper_def example_cfg_def
          example_sig_def)
  show "replace_char nl [nl, CHR '' ''] ''SIGLINE1'' = ''SIGLINE1''"
    by (rule t [THEN conjunct2, THEN conjunct2, THEN conjunct1, rule_format]) simp
qed (rule gpgsig_embedding [THEN conjunct2, THEN conjunct2, THEN conjunct2, THEN conjunct2,
        THEN conjunct1, rule_format, OF example_branch_result])

lemma lines_keepends_line:
  "nl \<notin> set l \<Longrightarrow> lines_keepends (l @ nl # rest) = (l @ [nl]) # lines_keepends rest"
  by (induction l) auto

lemma lines_keepends_text:
  "\<forall>l \<in> set ls. nl \<notin> set l \<Longrightarrow> lines_keepends (text_of_lines ls @ rest)
     = map (\<lambda>l. l @ [nl]) ls @ lines_keepends rest"
proof (induction ls)
  case Nil
  then show ?case by (simp add: text_of_lines_def)
next
  case (Cons l ls)
  have "text_of_lines (l # ls) @ rest = l @ nl # (text_of_lines ls @ rest)"
    by (simp add: text_of_lines_def)
  then show ?case using Cons by (simp add: lines_keepends_line)
qed

lemma valid_commit_no_nl: "valid_commit c \<Longrightarrow> nl \<notin> set c"
  by (auto simp: valid_commit_def str_in_char split: if_splits)

lemma digit_char_digit: "d < 10 \<Longrightarrow> digit_char d \<in> set ''0123456789''"
  unfolding digit_char_def by (rule nth_mem) simp

lemma str_nat_digits: "set (str_nat n) \<subseteq> set ''0123456789''"
proof (induction n rule: str_nat.induct)
  case (1 n)
  show ?case
  proof (cases "n < 10")
    case True
    then show ?thesis using digit_char_digit [of n] by (subst str_nat.simps) simp
  next
    case False
    have "digit_char (n mod 10) \<in> set ''0123456789''" by (rule digit_char_digit) simp
    then show ?thesis using False "1.IH" by (subst str_nat.simps) simp
  qed
qed

lemma str_int_no_nl: "nl \<notin> set (str_int i)"
proof -
  have "nl \<notin> set (str_nat n)" for n using str_nat_digits [of n] by auto
  then show ?thesis by (simp add: str_int_def)
qed

lemma commit_part1_lines:
  assumes "nl \<notin> set tree" "\<forall>p \<in> set parents. nl \<notin> set p" "nl \<notin> set identity"
  shows "lines_keepends (commit_part1 tree parents identity timestamp @ rest)
     = map (\<lambda>l. l @ [nl])
         ([''tree '' @ tree]
          @ map (\<lambda>p. ''parent '' @ p) parents
          @ [''author '' @ identity @ '' '' @ str_int timestamp @ '' +0000'',
             ''committer '' @ identity @ '' '' @ str_int timestamp @ '' +0000''])
       @ lines_keepends rest"
  unfolding commit_part1_def
  by (rule lines_keepends_text) (use assms str_int_no_nl in auto)

text \<open>
  C5 (as the code has it). Whenever \<open>stamp_branch\<close> returns an object, the text begins with
  the first section and the signature header follows it. The first section is the line
  \<open>tree <tree>\<close>, then the line \<open>parent <parent>\<close> when a parent is given, then always the
  line \<open>parent <commit>\<close> for the commit that is stamped, then \<open>author\<close> and \<open>committer\<close>
  with the identity, the timestamp and \<open>+0000\<close>. So the object has two parent lines when a
  parent is given and one, for the stamped commit, when it is not.
\<close>

theorem commit_first_section:
  "(result_of (stamp_branch cfg self w commit parent tree) = Returns (Object obj) \<longrightarrow>
      (\<exists>now rest. clock w (ticks w) = Some now
         \<and> obj = commit_part1 tree (case parent of None \<Rightarrow> [commit] | Some p \<Rightarrow> [p, commit])
                   (fullid self) now @ ''gpgsig '' @ rest
         \<and> (nl \<notin> set (fullid self) \<longrightarrow>
              lines_keepends obj
              = map (\<lambda>l. l @ [nl])
                  ([''tree '' @ tree]
                   @ (case parent of
                        None \<Rightarrow> [''parent '' @ commit]
                      | Some p \<Rightarrow> [''parent '' @ p, ''parent '' @ commit])
                   @ [''author '' @ fullid self @ '' '' @ str_int now @ '' +0000'',
                      ''committer '' @ fullid self @ '' '' @ str_int now @ '' +0000''])
                @ lines_keepends (''gpgsig '' @ rest))))
   \<and> commit_part1 tree [commit] identity timestamp =
        ''tree '' @ tree @ [nl]
        @ ''parent '' @ commit @ [nl]
        @ ''author '' @ identity @ '' '' @ str_int timestamp @ '' +0000'' @ [nl]
        @ ''committer '' @ identity @ '' '' @ str_int timestamp @ '' +0000'' @ [nl]
   \<and> commit_part1 tree [p, commit] identity timestamp =
        ''tree '' @ tree @ [nl]
        @ ''parent '' @ p @ [nl]
        @ ''parent '' @ commit @ [nl]
        @ ''author '' @ identity @ '' '' @ str_int timestamp @ '' +0000'' @ [nl]
        @ ''committer '' @ identity @ '' '' @ str_int timestamp @ '' +0000'' @ [nl]"
proof (intro conjI impI)
  assume r: "result_of (stamp_branch cfg self w commit parent tree) = Returns (Object obj)"
  from r obtain now0 isonow0 where v: "valid_commit commit" "valid_commit tree"
    "case parent of None \<Rightarrow> True | Some p \<Rightarrow> valid_commit p"
    by (rule branch_returns) simp_all
  obtain now isonow body where c: "clock w (ticks w) = Some now"
    and o: "obj = commitobj1 self commit parent tree now @ gpgsig_header (body @ [nl])
                   @ commitobj2 self isonow"
    using branch_object_returned [OF r] by blast
  let ?parents = "case parent of None \<Rightarrow> [commit] | Some p \<Rightarrow> [p, commit]"
  let ?rest = "replace_char nl [nl, CHR '' ''] body @ [nl] @ commitobj2 self isonow"
  have o': "obj = commit_part1 tree ?parents (fullid self) now @ ''gpgsig '' @ ?rest"
    using o by (simp add: commitobj1_eq gpgsig_header_newline)
  have p: "\<forall>p \<in> set ?parents. nl \<notin> set p"
    using v valid_commit_no_nl by (auto split: option.splits)
  have l: "nl \<notin> set (fullid self) \<longrightarrow>
              lines_keepends obj
              = map (\<lambda>l. l @ [nl])
                  ([''tree '' @ tree]
                   @ (case parent of
                        None \<Rightarrow> [''parent '' @ commit]
                      | Some p \<Rightarrow> [''parent '' @ p, ''parent '' @ commit])
                   @ [''author '' @ fullid self @ '' '' @ str_int now @ '' +0000'',
                      ''committer '' @ fullid self @ '' '' @ str_int now @ '' +0000''])
                @ lines_keepends (''gpgsig '' @ ?rest)"
  proof
    assume i: "nl \<notin> set (fullid self)"
    have m: "map (\<lambda>p. ''parent '' @ p) ?parents
        = (case parent of None \<Rightarrow> [''parent '' @ commit]
           | Some p \<Rightarrow> [''parent '' @ p, ''parent '' @ commit])"
      by (simp split: option.splits)
    show "lines_keepends obj
              = map (\<lambda>l. l @ [nl])
                  ([''tree '' @ tree]
                   @ (case parent of
                        None \<Rightarrow> [''parent '' @ commit]
                      | Some p \<Rightarrow> [''parent '' @ p, ''parent '' @ commit])
                   @ [''author '' @ fullid self @ '' '' @ str_int now @ '' +0000'',
                      ''committer '' @ fullid self @ '' '' @ str_int now @ '' +0000''])
                @ lines_keepends (''gpgsig '' @ ?rest)"
      unfolding o' m [symmetric]
      by (rule commit_part1_lines [OF valid_commit_no_nl [OF v(2)] p i])
  qed
  show "\<exists>now rest. clock w (ticks w) = Some now
         \<and> obj = commit_part1 tree (case parent of None \<Rightarrow> [commit] | Some p \<Rightarrow> [p, commit])
                   (fullid self) now @ ''gpgsig '' @ rest
         \<and> (nl \<notin> set (fullid self) \<longrightarrow>
              lines_keepends obj
              = map (\<lambda>l. l @ [nl])
                  ([''tree '' @ tree]
                   @ (case parent of
                        None \<Rightarrow> [''parent '' @ commit]
                      | Some p \<Rightarrow> [''parent '' @ p, ''parent '' @ commit])
                   @ [''author '' @ fullid self @ '' '' @ str_int now @ '' +0000'',
                      ''committer '' @ fullid self @ '' '' @ str_int now @ '' +0000''])
                @ lines_keepends (''gpgsig '' @ rest))"
    using c o' l by blast
next
  show "commit_part1 tree [commit] identity timestamp =
        ''tree '' @ tree @ [nl]
        @ ''parent '' @ commit @ [nl]
        @ ''author '' @ identity @ '' '' @ str_int timestamp @ '' +0000'' @ [nl]
        @ ''committer '' @ identity @ '' '' @ str_int timestamp @ '' +0000'' @ [nl]"
    by (simp add: commit_part1_def text_of_lines_def)
  show "commit_part1 tree [p, commit] identity timestamp =
        ''tree '' @ tree @ [nl]
        @ ''parent '' @ p @ [nl]
        @ ''parent '' @ commit @ [nl]
        @ ''author '' @ identity @ '' '' @ str_int timestamp @ '' +0000'' @ [nl]
        @ ''committer '' @ identity @ '' '' @ str_int timestamp @ '' +0000'' @ [nl]"
    by (simp add: commit_part1_def text_of_lines_def)
qed

lemma example_parent_valid: "valid_commit example_parent"
  by (simp add: valid_commit_iff example_parent_def lower_hex_def)

lemma example_branch_parent_run:
  "stamp_branch example_cfg example_stamper example_world example_commit (Some example_parent)
       example_tree =
     (Returns (Object
        (''tree 0123456789abcdef0123456789abcdef01234567'' @ [nl]
         @ ''parent fedcba9876543210fedcba9876543210fedcba98'' @ [nl]
         @ ''parent aaaaaaaaaaaaaaaaaaaaaaaaaaaaaaaaaaaaaaaa'' @ [nl]
         @ ''author Alice <alice@example.com> 1577836800 +0000'' @ [nl]
         @ ''committer Alice <alice@example.com> 1577836800 +0000'' @ [nl]
         @ ''gpgsig SIGLINE1'' @ [nl] @ '' SIGLINE2'' @ [nl]
         @ [nl]
         @ ''https://example.org branch timestamp 2020-01-01 00:00:00 UTC'' @ [nl])),
      example_stamper\<lparr>gpgs := [GPG_link 1, GPG_link 2, GPG_home]\<rparr>,
      example_world
        \<lparr>ticks := 1,
         hashes_work := ''aaaaaaaaaaaaaaaaaaaaaaaaaaaaaaaaaaaaaaaa'' @ [nl],
         trace :=
           [Serialize_enter, Sig_time (Some 1577836800),
            Log_write (''aaaaaaaaaaaaaaaaaaaaaaaaaaaaaaaaaaaaaaaa'' @ [nl]), Log_fsync,
            Serialize_exit, Sem_acquire True, Gpg_next GPG_home,
            Gpg_sign GPG_home
              (''tree 0123456789abcdef0123456789abcdef01234567'' @ [nl]
               @ ''parent fedcba9876543210fedcba9876543210fedcba98'' @ [nl]
               @ ''parent aaaaaaaaaaaaaaaaaaaaaaaaaaaaaaaaaaaaaaaa'' @ [nl]
               @ ''author Alice <alice@example.com> 1577836800 +0000'' @ [nl]
               @ ''committer Alice <alice@example.com> 1577836800 +0000'' @ [nl]
               @ [nl]
               @ ''https://example.org branch timestamp 2020-01-01 00:00:00 UTC'' @ [nl])
              ''0xKEY'' [''--faked-system-time'', ''1577836800!''],
            Sem_release]\<rparr>)"
  using example_valid example_parent_valid
  by (simp add: stamp_branch_def sig_time_def log_commit_def limited_sign_def sem_acquire_def
      sem_release_op_def gpg_def emit_def Let_def is_ascii_def commitobj1_def commitobj2_def
      gpgsig_header_def replace_char_def
      faked_time_args_def str_int_example example_world_def example_stamper_def example_cfg_def
      example_sig_def example_commit_def example_tree_def example_parent_def)

lemma example_branch_parent_result:
  "result_of (stamp_branch example_cfg example_stamper example_world example_commit
       (Some example_parent) example_tree) =
     Returns (Object
        (''tree 0123456789abcdef0123456789abcdef01234567'' @ [nl]
         @ ''parent fedcba9876543210fedcba9876543210fedcba98'' @ [nl]
         @ ''parent aaaaaaaaaaaaaaaaaaaaaaaaaaaaaaaaaaaaaaaa'' @ [nl]
         @ ''author Alice <alice@example.com> 1577836800 +0000'' @ [nl]
         @ ''committer Alice <alice@example.com> 1577836800 +0000'' @ [nl]
         @ ''gpgsig SIGLINE1'' @ [nl] @ '' SIGLINE2'' @ [nl]
         @ [nl]
         @ ''https://example.org branch timestamp 2020-01-01 00:00:00 UTC'' @ [nl]))"
  by (simp only: example_branch_parent_run result_of_def fst_conv)

theorem commit_first_section_witness:
  "(\<exists>now rest. clock example_world (ticks example_world) = Some now
      \<and> ''tree 0123456789abcdef0123456789abcdef01234567'' @ [nl]
         @ ''parent aaaaaaaaaaaaaaaaaaaaaaaaaaaaaaaaaaaaaaaa'' @ [nl]
         @ ''author Alice <alice@example.com> 1577836800 +0000'' @ [nl]
         @ ''committer Alice <alice@example.com> 1577836800 +0000'' @ [nl]
         @ ''gpgsig SIGLINE1'' @ [nl] @ '' SIGLINE2'' @ [nl]
         @ [nl]
         @ ''https://example.org branch timestamp 2020-01-01 00:00:00 UTC'' @ [nl]
        = commit_part1 example_tree [example_commit] (fullid example_stamper) now
          @ ''gpgsig '' @ rest)
   \<and> (\<exists>now rest. clock example_world (ticks example_world) = Some now
      \<and> ''tree 0123456789abcdef0123456789abcdef01234567'' @ [nl]
         @ ''parent fedcba9876543210fedcba9876543210fedcba98'' @ [nl]
         @ ''parent aaaaaaaaaaaaaaaaaaaaaaaaaaaaaaaaaaaaaaaa'' @ [nl]
         @ ''author Alice <alice@example.com> 1577836800 +0000'' @ [nl]
         @ ''committer Alice <alice@example.com> 1577836800 +0000'' @ [nl]
         @ ''gpgsig SIGLINE1'' @ [nl] @ '' SIGLINE2'' @ [nl]
         @ [nl]
         @ ''https://example.org branch timestamp 2020-01-01 00:00:00 UTC'' @ [nl]
        = commit_part1 example_tree [example_parent, example_commit] (fullid example_stamper) now
          @ ''gpgsig '' @ rest
      \<and> lines_keepends
          (''tree 0123456789abcdef0123456789abcdef01234567'' @ [nl]
         @ ''parent fedcba9876543210fedcba9876543210fedcba98'' @ [nl]
         @ ''parent aaaaaaaaaaaaaaaaaaaaaaaaaaaaaaaaaaaaaaaa'' @ [nl]
         @ ''author Alice <alice@example.com> 1577836800 +0000'' @ [nl]
         @ ''committer Alice <alice@example.com> 1577836800 +0000'' @ [nl]
         @ ''gpgsig SIGLINE1'' @ [nl] @ '' SIGLINE2'' @ [nl]
         @ [nl]
         @ ''https://example.org branch timestamp 2020-01-01 00:00:00 UTC'' @ [nl])
        = map (\<lambda>l. l @ [nl])
            ([''tree '' @ example_tree]
             @ [''parent '' @ example_parent, ''parent '' @ example_commit]
             @ [''author '' @ fullid example_stamper @ '' '' @ str_int now @ '' +0000'',
                ''committer '' @ fullid example_stamper @ '' '' @ str_int now @ '' +0000''])
          @ lines_keepends (''gpgsig '' @ rest))"
proof -
  have i: "nl \<notin> set (fullid example_stamper)" by (simp add: example_stamper_def)
  have a: "\<exists>now rest. clock example_world (ticks example_world) = Some now
      \<and> ''tree 0123456789abcdef0123456789abcdef01234567'' @ [nl]
         @ ''parent aaaaaaaaaaaaaaaaaaaaaaaaaaaaaaaaaaaaaaaa'' @ [nl]
         @ ''author Alice <alice@example.com> 1577836800 +0000'' @ [nl]
         @ ''committer Alice <alice@example.com> 1577836800 +0000'' @ [nl]
         @ ''gpgsig SIGLINE1'' @ [nl] @ '' SIGLINE2'' @ [nl]
         @ [nl]
         @ ''https://example.org branch timestamp 2020-01-01 00:00:00 UTC'' @ [nl]
        = commit_part1 example_tree [example_commit] (fullid example_stamper) now
          @ ''gpgsig '' @ rest"
    using commit_first_section [THEN conjunct1, rule_format, OF example_branch_result,
        unfolded option.case]
    by iprover
  have b: "\<exists>now rest. clock example_world (ticks example_world) = Some now
      \<and> ''tree 0123456789abcdef0123456789abcdef01234567'' @ [nl]
         @ ''parent fedcba9876543210fedcba9876543210fedcba98'' @ [nl]
         @ ''parent aaaaaaaaaaaaaaaaaaaaaaaaaaaaaaaaaaaaaaaa'' @ [nl]
         @ ''author Alice <alice@example.com> 1577836800 +0000'' @ [nl]
         @ ''committer Alice <alice@example.com> 1577836800 +0000'' @ [nl]
         @ ''gpgsig SIGLINE1'' @ [nl] @ '' SIGLINE2'' @ [nl]
         @ [nl]
         @ ''https://example.org branch timestamp 2020-01-01 00:00:00 UTC'' @ [nl]
        = commit_part1 example_tree [example_parent, example_commit] (fullid example_stamper) now
          @ ''gpgsig '' @ rest
      \<and> lines_keepends
          (''tree 0123456789abcdef0123456789abcdef01234567'' @ [nl]
         @ ''parent fedcba9876543210fedcba9876543210fedcba98'' @ [nl]
         @ ''parent aaaaaaaaaaaaaaaaaaaaaaaaaaaaaaaaaaaaaaaa'' @ [nl]
         @ ''author Alice <alice@example.com> 1577836800 +0000'' @ [nl]
         @ ''committer Alice <alice@example.com> 1577836800 +0000'' @ [nl]
         @ ''gpgsig SIGLINE1'' @ [nl] @ '' SIGLINE2'' @ [nl]
         @ [nl]
         @ ''https://example.org branch timestamp 2020-01-01 00:00:00 UTC'' @ [nl])
        = map (\<lambda>l. l @ [nl])
            ([''tree '' @ example_tree]
             @ [''parent '' @ example_parent, ''parent '' @ example_commit]
             @ [''author '' @ fullid example_stamper @ '' '' @ str_int now @ '' +0000'',
                ''committer '' @ fullid example_stamper @ '' '' @ str_int now @ '' +0000''])
          @ lines_keepends (''gpgsig '' @ rest)"
    using commit_first_section [THEN conjunct1, rule_format, OF example_branch_parent_result,
        unfolded option.case] i
    by iprover
  from a b show ?thesis by (rule conjI)
qed

text \<open>
  C5 as stated fails: the object of a valid request without a parent has a parent line, the
  one of the stamped commit.
\<close>

theorem root_commit_parent_line_counterexample:
  "valid_commit example_commit \<and> valid_commit example_tree
   \<and> result_of (stamp_branch example_cfg example_stamper example_world example_commit None
        example_tree)
      = Returns (Object
        (''tree 0123456789abcdef0123456789abcdef01234567'' @ [nl]
         @ ''parent aaaaaaaaaaaaaaaaaaaaaaaaaaaaaaaaaaaaaaaa'' @ [nl]
         @ ''author Alice <alice@example.com> 1577836800 +0000'' @ [nl]
         @ ''committer Alice <alice@example.com> 1577836800 +0000'' @ [nl]
         @ ''gpgsig SIGLINE1'' @ [nl] @ '' SIGLINE2'' @ [nl]
         @ [nl]
         @ ''https://example.org branch timestamp 2020-01-01 00:00:00 UTC'' @ [nl]))
   \<and> ''parent aaaaaaaaaaaaaaaaaaaaaaaaaaaaaaaaaaaaaaaa'' @ [nl]
       \<in> set (lines_keepends
        (''tree 0123456789abcdef0123456789abcdef01234567'' @ [nl]
         @ ''parent aaaaaaaaaaaaaaaaaaaaaaaaaaaaaaaaaaaaaaaa'' @ [nl]
         @ ''author Alice <alice@example.com> 1577836800 +0000'' @ [nl]
         @ ''committer Alice <alice@example.com> 1577836800 +0000'' @ [nl]
         @ ''gpgsig SIGLINE1'' @ [nl] @ '' SIGLINE2'' @ [nl]
         @ [nl]
         @ ''https://example.org branch timestamp 2020-01-01 00:00:00 UTC'' @ [nl]))"
proof (intro conjI)
  show "''parent aaaaaaaaaaaaaaaaaaaaaaaaaaaaaaaaaaaaaaaa'' @ [nl]
       \<in> set (lines_keepends
        (''tree 0123456789abcdef0123456789abcdef01234567'' @ [nl]
         @ ''parent aaaaaaaaaaaaaaaaaaaaaaaaaaaaaaaaaaaaaaaa'' @ [nl]
         @ ''author Alice <alice@example.com> 1577836800 +0000'' @ [nl]
         @ ''committer Alice <alice@example.com> 1577836800 +0000'' @ [nl]
         @ ''gpgsig SIGLINE1'' @ [nl] @ '' SIGLINE2'' @ [nl]
         @ [nl]
         @ ''https://example.org branch timestamp 2020-01-01 00:00:00 UTC'' @ [nl]))"
    by simp
qed (rule example_valid example_branch_result)+

section \<open>One timestamp for the object and the signature\<close>

lemma limited_sign_no_sample:
  "\<not> list_ex is_sig_time (events_of w (limited_sign cfg self w now commit data))
   \<and> ticks (world_of (limited_sign cfg self w now commit data)) = ticks w"
proof -
  obtain r self' w' where run: "limited_sign cfg self w now commit data = (r, self', w')"
    by (cases "limited_sign cfg self w now commit data") auto
  show ?thesis
    using limited_sign_events [OF run] limited_sign_frame [OF run]
    by (simp add: run events_of_def world_of_def)
qed

lemma block_sampled:
  assumes c: "clock w (ticks w) = Some now"
  shows "sampled_under_lock (Some now)
           (events_of w (limited_sign cfg self (serialized_block w commit now) now commit data))
         \<and> ticks (world_of (limited_sign cfg self (serialized_block w commit now) now commit data))
             = Suc (ticks w)"
proof -
  let ?b = "serialized_block w commit now"
  let ?L = "limited_sign cfg self ?b now commit data"
  have n: "\<not> list_ex is_sig_time (events_of ?b ?L)" "ticks (world_of ?L) = ticks ?b"
    using limited_sign_no_sample [of ?b cfg self now commit data] by auto
  then have f: "filter is_sig_time (events_of ?b ?L) = []"
    by (auto simp: list_ex_iff filter_empty_conv)
  have "sampled_under_lock (Some now) (events_of w ?L)"
    by (simp add: events_after_block [OF c] sampled_under_lock_def f)
  moreover have "ticks (world_of ?L) = Suc (ticks w)"
    using n(2) by (simp add: serialized_block_def)
  ultimately show ?thesis by simp
qed

lemma tag_sampled:
  assumes "valid_commit commit" "valid_tag tagname"
  shows "sampled_under_lock (clock w (ticks w)) (events_of w (stamp_tag cfg self w commit tagname))
         \<and> ticks (world_of (stamp_tag cfg self w commit tagname)) = Suc (ticks w)"
proof (cases "clock w (ticks w)")
  case None
  then show ?thesis
    by (simp add: stamp_tag_run [OF assms] events_of_def world_of_def new_events_def
        sampled_under_lock_def)
next
  case (Some now)
  show ?thesis
  proof (cases "disk w = Disk_ok")
    case False
    then show ?thesis using Some
      by (cases "disk w")
         (simp_all add: stamp_tag_run [OF assms] events_of_def world_of_def new_events_def
           sampled_under_lock_def)
  next
    case True
    show ?thesis
    proof (cases "utc_string w now")
      case None
      then show ?thesis using Some True
        by (simp add: stamp_tag_run [OF assms] events_of_def world_of_def new_events_def
            sampled_under_lock_def serialized_block_def)
    next
      case (Some isonow)
      then show ?thesis using \<open>clock w (ticks w) = Some now\<close> True
          block_sampled [OF \<open>clock w (ticks w) = Some now\<close>]
        by (simp add: stamp_tag_run [OF assms])
    qed
  qed
qed

lemma branch_sampled:
  assumes "valid_commit commit" "valid_commit tree"
    "case parent of None \<Rightarrow> True | Some p \<Rightarrow> valid_commit p"
  shows "sampled_under_lock (clock w (ticks w))
           (events_of w (stamp_branch cfg self w commit parent tree))
         \<and> ticks (world_of (stamp_branch cfg self w commit parent tree)) = Suc (ticks w)"
proof (cases "clock w (ticks w)")
  case None
  then show ?thesis
    by (simp add: stamp_branch_run [OF assms] events_of_def world_of_def new_events_def
        sampled_under_lock_def)
next
  case (Some now)
  show ?thesis
  proof (cases "disk w = Disk_ok")
    case False
    then show ?thesis using Some
      by (cases "disk w")
         (simp_all add: stamp_branch_run [OF assms] events_of_def world_of_def new_events_def
           sampled_under_lock_def)
  next
    case True
    show ?thesis
    proof (cases "utc_string w now")
      case None
      then show ?thesis using Some True
        by (simp add: stamp_branch_run [OF assms] events_of_def world_of_def new_events_def
            sampled_under_lock_def serialized_block_def)
    next
      case (Some isonow)
      then show ?thesis using \<open>clock w (ticks w) = Some now\<close> True
          block_sampled [OF \<open>clock w (ticks w) = Some now\<close>]
        by (simp add: stamp_branch_run [OF assms])
    qed
  qed
qed

lemma tag_signs:
  "filter is_sign (events_of w (stamp_tag cfg self w commit tagname)) = []
   \<or> (\<exists>now g d. clock w (ticks w) = Some now
         \<and> filter is_sign (events_of w (stamp_tag cfg self w commit tagname))
             = [Gpg_sign g d (keyid self) (faked_time_args now)])"
proof (cases "list_ex is_sign (events_of w (stamp_tag cfg self w commit tagname))")
  case False
  then show ?thesis by (auto simp: list_ex_iff filter_empty_conv)
next
  case True
  have v: "valid_commit commit \<and> valid_tag tagname"
  proof (rule ccontr)
    assume "\<not> (valid_commit commit \<and> valid_tag tagname)"
    then show False using True
      by (simp add: stamp_tag_rejects events_of_def world_of_def new_events_def)
  qed
  then have v1: "valid_commit commit" and v2: "valid_tag tagname" by auto
  have e: "\<not> (clock w (ticks w) = None \<or> disk w \<noteq> Disk_ok)"
    using tag_not_logged [OF v1 v2, of w cfg self] True by blast
  then obtain now where c: "clock w (ticks w) = Some now" and d: "disk w = Disk_ok" by auto
  show ?thesis
  proof (cases "utc_string w now")
    case None
    then have "filter is_sign (events_of w (stamp_tag cfg self w commit tagname)) = []"
      using c d
      by (simp add: stamp_tag_run [OF v1 v2] events_of_def world_of_def new_events_def
          serialized_block_def)
    then show ?thesis by simp
  next
    case (Some isonow)
    let ?L = "limited_sign cfg self (serialized_block w commit now) now commit
                (tag_object self commit tagname now)"
    have "filter is_sign (events_of w (stamp_tag cfg self w commit tagname))
          = filter is_sign (events_of (serialized_block w commit now) ?L)"
      using c d Some by (simp add: stamp_tag_run [OF v1 v2] events_after_block [OF c])
    then show ?thesis
      using limited_sign_signs [of "serialized_block w commit now" cfg self now commit
          "tag_object self commit tagname now"] c
      by auto
  qed
qed

lemma branch_signs:
  "filter is_sign (events_of w (stamp_branch cfg self w commit parent tree)) = []
   \<or> (\<exists>now g d. clock w (ticks w) = Some now
         \<and> filter is_sign (events_of w (stamp_branch cfg self w commit parent tree))
             = [Gpg_sign g d (keyid self) (faked_time_args now)])"
proof (cases "list_ex is_sign (events_of w (stamp_branch cfg self w commit parent tree))")
  case False
  then show ?thesis by (auto simp: list_ex_iff filter_empty_conv)
next
  case True
  have v: "valid_commit commit \<and> valid_commit tree
        \<and> (case parent of None \<Rightarrow> True | Some p \<Rightarrow> valid_commit p)"
  proof (rule ccontr)
    assume "\<not> (valid_commit commit \<and> valid_commit tree
        \<and> (case parent of None \<Rightarrow> True | Some p \<Rightarrow> valid_commit p))"
    then show False using True
      by (simp add: stamp_branch_rejects events_of_def world_of_def new_events_def)
  qed
  then have v1: "valid_commit commit" and v2: "valid_commit tree"
    and v3: "case parent of None \<Rightarrow> True | Some p \<Rightarrow> valid_commit p" by auto
  have e: "\<not> (clock w (ticks w) = None \<or> disk w \<noteq> Disk_ok)"
    using branch_not_logged [OF v1 v2 v3, of w cfg self] True by blast
  then obtain now where c: "clock w (ticks w) = Some now" and d: "disk w = Disk_ok" by auto
  show ?thesis
  proof (cases "utc_string w now")
    case None
    then have "filter is_sign (events_of w (stamp_branch cfg self w commit parent tree)) = []"
      using c d
      by (simp add: stamp_branch_run [OF v1 v2 v3] events_of_def world_of_def new_events_def
          serialized_block_def)
    then show ?thesis by simp
  next
    case (Some isonow)
    let ?data = "commitobj1 self commit parent tree now @ commitobj2 self isonow"
    let ?L = "limited_sign cfg self (serialized_block w commit now) now commit ?data"
    have "filter is_sign (events_of w (stamp_branch cfg self w commit parent tree))
          = filter is_sign (events_of (serialized_block w commit now) ?L)"
      using c d Some by (simp add: stamp_branch_run [OF v1 v2 v3] events_after_block [OF c])
    then show ?thesis
      using limited_sign_signs [of "serialized_block w commit now" cfg self now commit ?data] c
      by auto
  qed
qed

text \<open>
  C9. A request that passes validation reads the clock exactly once, right after taking the
  ordering lock and before leaving it. A call makes at most one signing call, and its faked
  system time is the decimal text of that reading followed by an exclamation mark. Whenever
  an object is returned, the time in its \<open>tagger\<close> line (for a branch: in its \<open>author\<close> and
  \<open>committer\<close> lines) is the decimal text of the same reading. This holds for \<open>stamp_tag\<close>
  and for \<open>stamp_branch\<close>.
\<close>

theorem one_timestamp:
  "(valid_commit commit \<and> valid_tag tagname \<longrightarrow>
      sampled_under_lock (clock w (ticks w)) (events_of w (stamp_tag cfg self w commit tagname))
      \<and> ticks (world_of (stamp_tag cfg self w commit tagname)) = Suc (ticks w))
   \<and> (filter is_sign (events_of w (stamp_tag cfg self w commit tagname)) = []
      \<or> (\<exists>now g d. clock w (ticks w) = Some now
            \<and> filter is_sign (events_of w (stamp_tag cfg self w commit tagname))
                = [Gpg_sign g d (keyid self) [''--faked-system-time'', str_int now @ ''!'']]))
   \<and> (result_of (stamp_tag cfg self w commit tagname) = Returns (Object obj) \<longrightarrow>
      (\<exists>now g d rest. clock w (ticks w) = Some now
         \<and> filter is_sign (events_of w (stamp_tag cfg self w commit tagname))
             = [Gpg_sign g d (keyid self) [''--faked-system-time'', str_int now @ ''!'']]
         \<and> obj = ''object '' @ commit @ [nl]
              @ ''type commit'' @ [nl]
              @ ''tag '' @ tagname @ [nl]
              @ ''tagger '' @ fullid self @ '' '' @ str_int now @ '' +0000'' @ [nl]
              @ [nl]
              @ url self @ '' tag timestamp'' @ [nl]
                 @ rest))
   \<and> (valid_commit commit \<and> valid_commit tree
        \<and> (case parent of None \<Rightarrow> True | Some p \<Rightarrow> valid_commit p) \<longrightarrow>
      sampled_under_lock (clock w (ticks w)) (events_of w (stamp_branch cfg self w commit parent tree))
      \<and> ticks (world_of (stamp_branch cfg self w commit parent tree)) = Suc (ticks w))
   \<and> (filter is_sign (events_of w (stamp_branch cfg self w commit parent tree)) = []
      \<or> (\<exists>now g d. clock w (ticks w) = Some now
            \<and> filter is_sign (events_of w (stamp_branch cfg self w commit parent tree))
                = [Gpg_sign g d (keyid self) [''--faked-system-time'', str_int now @ ''!'']]))
   \<and> (result_of (stamp_branch cfg self w commit parent tree) = Returns (Object obj) \<longrightarrow>
      (\<exists>now g d rest. clock w (ticks w) = Some now
         \<and> filter is_sign (events_of w (stamp_branch cfg self w commit parent tree))
             = [Gpg_sign g d (keyid self) [''--faked-system-time'', str_int now @ ''!'']]
         \<and> obj = ''tree '' @ tree @ [nl]
              @ (case parent of None \<Rightarrow> [] | Some p \<Rightarrow> ''parent '' @ p @ [nl])
              @ ''parent '' @ commit @ [nl]
              @ ''author '' @ fullid self @ '' '' @ str_int now @ '' +0000'' @ [nl]
              @ ''committer '' @ fullid self @ '' '' @ str_int now @ '' +0000'' @ [nl]
                 @ rest))"
proof -
  have 1: "valid_commit commit \<and> valid_tag tagname \<longrightarrow>
      sampled_under_lock (clock w (ticks w)) (events_of w (stamp_tag cfg self w commit tagname))
      \<and> ticks (world_of (stamp_tag cfg self w commit tagname)) = Suc (ticks w)"
    using tag_sampled [of commit tagname w cfg self] by blast
  have 2: "filter is_sign (events_of w (stamp_tag cfg self w commit tagname)) = []
      \<or> (\<exists>now g d. clock w (ticks w) = Some now
            \<and> filter is_sign (events_of w (stamp_tag cfg self w commit tagname))
                = [Gpg_sign g d (keyid self) [''--faked-system-time'', str_int now @ ''!'']])"
    using tag_signs [of w cfg self commit tagname] by (simp only: faked_time_args_def)
  have 3: "result_of (stamp_tag cfg self w commit tagname) = Returns (Object obj) \<longrightarrow>
      (\<exists>now g d rest. clock w (ticks w) = Some now
         \<and> filter is_sign (events_of w (stamp_tag cfg self w commit tagname))
             = [Gpg_sign g d (keyid self) [''--faked-system-time'', str_int now @ ''!'']]
         \<and> obj = ''object '' @ commit @ [nl]
              @ ''type commit'' @ [nl]
              @ ''tag '' @ tagname @ [nl]
              @ ''tagger '' @ fullid self @ '' '' @ str_int now @ '' +0000'' @ [nl]
              @ [nl]
              @ url self @ '' tag timestamp'' @ [nl]
                 @ rest)"
  proof
    assume "result_of (stamp_tag cfg self w commit tagname) = Returns (Object obj)"
    from tag_object_returned [OF this]
    obtain now sig g where "clock w (ticks w) = Some now"
      "filter is_sign (events_of w (stamp_tag cfg self w commit tagname))
               = [Gpg_sign g (tag_object self commit tagname now) (keyid self) (faked_time_args now)]"
      "obj = tag_object self commit tagname now @ sig"
      by blast
    then have "clock w (ticks w) = Some now
         \<and> filter is_sign (events_of w (stamp_tag cfg self w commit tagname))
             = [Gpg_sign g (tag_object self commit tagname now) (keyid self)
                  [''--faked-system-time'', str_int now @ ''!'']]
         \<and> obj = ''object '' @ commit @ [nl]
              @ ''type commit'' @ [nl]
              @ ''tag '' @ tagname @ [nl]
              @ ''tagger '' @ fullid self @ '' '' @ str_int now @ '' +0000'' @ [nl]
              @ [nl]
              @ url self @ '' tag timestamp'' @ [nl]
                 @ sig"
      by (simp add: tag_object_def faked_time_args_def)
    then show "\<exists>now g d rest. clock w (ticks w) = Some now
         \<and> filter is_sign (events_of w (stamp_tag cfg self w commit tagname))
             = [Gpg_sign g d (keyid self) [''--faked-system-time'', str_int now @ ''!'']]
         \<and> obj = ''object '' @ commit @ [nl]
              @ ''type commit'' @ [nl]
              @ ''tag '' @ tagname @ [nl]
              @ ''tagger '' @ fullid self @ '' '' @ str_int now @ '' +0000'' @ [nl]
              @ [nl]
              @ url self @ '' tag timestamp'' @ [nl]
                 @ rest"
      by iprover
  qed
  have 4: "valid_commit commit \<and> valid_commit tree
        \<and> (case parent of None \<Rightarrow> True | Some p \<Rightarrow> valid_commit p) \<longrightarrow>
      sampled_under_lock (clock w (ticks w)) (events_of w (stamp_branch cfg self w commit parent tree))
      \<and> ticks (world_of (stamp_branch cfg self w commit parent tree)) = Suc (ticks w)"
    using branch_sampled [of commit tree parent w cfg self] by blast
  have 5: "filter is_sign (events_of w (stamp_branch cfg self w commit parent tree)) = []
      \<or> (\<exists>now g d. clock w (ticks w) = Some now
            \<and> filter is_sign (events_of w (stamp_branch cfg self w commit parent tree))
                = [Gpg_sign g d (keyid self) [''--faked-system-time'', str_int now @ ''!'']])"
    using branch_signs [of w cfg self commit parent tree] by (simp only: faked_time_args_def)
  have 6: "result_of (stamp_branch cfg self w commit parent tree) = Returns (Object obj) \<longrightarrow>
      (\<exists>now g d rest. clock w (ticks w) = Some now
         \<and> filter is_sign (events_of w (stamp_branch cfg self w commit parent tree))
             = [Gpg_sign g d (keyid self) [''--faked-system-time'', str_int now @ ''!'']]
         \<and> obj = ''tree '' @ tree @ [nl]
              @ (case parent of None \<Rightarrow> [] | Some p \<Rightarrow> ''parent '' @ p @ [nl])
              @ ''parent '' @ commit @ [nl]
              @ ''author '' @ fullid self @ '' '' @ str_int now @ '' +0000'' @ [nl]
              @ ''committer '' @ fullid self @ '' '' @ str_int now @ '' +0000'' @ [nl]
                 @ rest)"
  proof
    assume "result_of (stamp_branch cfg self w commit parent tree) = Returns (Object obj)"
    from branch_object_returned [OF this]
    obtain now isonow body g where "clock w (ticks w) = Some now"
      "filter is_sign (events_of w (stamp_branch cfg self w commit parent tree))
               = [Gpg_sign g (commitobj1 self commit parent tree now @ commitobj2 self isonow)
                    (keyid self) (faked_time_args now)]"
      "obj = commitobj1 self commit parent tree now @ gpgsig_header (body @ [nl])
                   @ commitobj2 self isonow"
      by blast
    then have "clock w (ticks w) = Some now
         \<and> filter is_sign (events_of w (stamp_branch cfg self w commit parent tree))
             = [Gpg_sign g (commitobj1 self commit parent tree now @ commitobj2 self isonow)
                  (keyid self) [''--faked-system-time'', str_int now @ ''!'']]
         \<and> obj = ''tree '' @ tree @ [nl]
              @ (case parent of None \<Rightarrow> [] | Some p \<Rightarrow> ''parent '' @ p @ [nl])
              @ ''parent '' @ commit @ [nl]
              @ ''author '' @ fullid self @ '' '' @ str_int now @ '' +0000'' @ [nl]
              @ ''committer '' @ fullid self @ '' '' @ str_int now @ '' +0000'' @ [nl]
                 @ (gpgsig_header (body @ [nl]) @ commitobj2 self isonow)"
      by (simp add: commitobj1_def faked_time_args_def split: option.splits)
    then show "\<exists>now g d rest. clock w (ticks w) = Some now
         \<and> filter is_sign (events_of w (stamp_branch cfg self w commit parent tree))
             = [Gpg_sign g d (keyid self) [''--faked-system-time'', str_int now @ ''!'']]
         \<and> obj = ''tree '' @ tree @ [nl]
              @ (case parent of None \<Rightarrow> [] | Some p \<Rightarrow> ''parent '' @ p @ [nl])
              @ ''parent '' @ commit @ [nl]
              @ ''author '' @ fullid self @ '' '' @ str_int now @ '' +0000'' @ [nl]
              @ ''committer '' @ fullid self @ '' '' @ str_int now @ '' +0000'' @ [nl]
                 @ rest"
      by iprover
  qed
  from 1 2 3 4 5 6 show ?thesis by iprover
qed

theorem one_timestamp_witness:
  "(sampled_under_lock (clock example_world (ticks example_world)) (events_of example_world (stamp_tag example_cfg example_stamper example_world example_commit ''rel1''))
      \<and> ticks (world_of (stamp_tag example_cfg example_stamper example_world example_commit ''rel1'')) = Suc (ticks example_world))
   \<and> (\<exists>now g d rest. clock example_world (ticks example_world) = Some now
         \<and> filter is_sign (events_of example_world (stamp_tag example_cfg example_stamper example_world example_commit ''rel1''))
             = [Gpg_sign g d (keyid example_stamper) [''--faked-system-time'', str_int now @ ''!'']]
         \<and> ''object aaaaaaaaaaaaaaaaaaaaaaaaaaaaaaaaaaaaaaaa'' @ [nl]
         @ ''type commit'' @ [nl]
         @ ''tag rel1'' @ [nl]
         @ ''tagger Alice <alice@example.com> 1577836800 +0000'' @ [nl]
         @ [nl]
         @ ''https://example.org tag timestamp'' @ [nl]
         @ ''SIGLINE1'' @ [nl] @ ''SIGLINE2'' @ [nl]
           = ''object '' @ example_commit @ [nl]
              @ ''type commit'' @ [nl]
              @ ''tag '' @ ''rel1'' @ [nl]
              @ ''tagger '' @ fullid example_stamper @ '' '' @ str_int now @ '' +0000'' @ [nl]
              @ [nl]
              @ url example_stamper @ '' tag timestamp'' @ [nl]
                 @ rest)
   \<and> (sampled_under_lock (clock example_world (ticks example_world)) (events_of example_world (stamp_branch example_cfg example_stamper example_world example_commit None example_tree))
      \<and> ticks (world_of (stamp_branch example_cfg example_stamper example_world example_commit None example_tree)) = Suc (ticks example_world))
   \<and> (\<exists>now g d rest. clock example_world (ticks example_world) = Some now
         \<and> filter is_sign (events_of example_world (stamp_branch example_cfg example_stamper example_world example_commit None example_tree))
             = [Gpg_sign g d (keyid example_stamper) [''--faked-system-time'', str_int now @ ''!'']]
         \<and> ''tree 0123456789abcdef0123456789abcdef01234567'' @ [nl]
         @ ''parent aaaaaaaaaaaaaaaaaaaaaaaaaaaaaaaaaaaaaaaa'' @ [nl]
         @ ''author Alice <alice@example.com> 1577836800 +0000'' @ [nl]
         @ ''committer Alice <alice@example.com> 1577836800 +0000'' @ [nl]
         @ ''gpgsig SIGLINE1'' @ [nl] @ '' SIGLINE2'' @ [nl]
         @ [nl]
         @ ''https://example.org branch timestamp 2020-01-01 00:00:00 UTC'' @ [nl]
           = ''tree '' @ example_tree @ [nl]
              @ []
              @ ''parent '' @ example_commit @ [nl]
              @ ''author '' @ fullid example_stamper @ '' '' @ str_int now @ '' +0000'' @ [nl]
              @ ''committer '' @ fullid example_stamper @ '' '' @ str_int now @ '' +0000'' @ [nl]
                 @ rest)"
proof -
  note tt = one_timestamp [where cfg = example_cfg and self = example_stamper
      and w = example_world and commit = example_commit and tagname = "''rel1''"
      and parent = None and tree = example_tree and obj = "''object aaaaaaaaaaaaaaaaaaaaaaaaaaaaaaaaaaaaaaaa'' @ [nl]
         @ ''type commit'' @ [nl]
         @ ''tag rel1'' @ [nl]
         @ ''tagger Alice <alice@example.com> 1577836800 +0000'' @ [nl]
         @ [nl]
         @ ''https://example.org tag timestamp'' @ [nl]
         @ ''SIGLINE1'' @ [nl] @ ''SIGLINE2'' @ [nl]"]
  note tb = one_timestamp [where cfg = example_cfg and self = example_stamper
      and w = example_world and commit = example_commit and tagname = "''rel1''"
      and parent = None and tree = example_tree and obj = "''tree 0123456789abcdef0123456789abcdef01234567'' @ [nl]
         @ ''parent aaaaaaaaaaaaaaaaaaaaaaaaaaaaaaaaaaaaaaaa'' @ [nl]
         @ ''author Alice <alice@example.com> 1577836800 +0000'' @ [nl]
         @ ''committer Alice <alice@example.com> 1577836800 +0000'' @ [nl]
         @ ''gpgsig SIGLINE1'' @ [nl] @ '' SIGLINE2'' @ [nl]
         @ [nl]
         @ ''https://example.org branch timestamp 2020-01-01 00:00:00 UTC'' @ [nl]"]
  have v: "valid_commit example_commit \<and> valid_commit example_tree
        \<and> (case None of None \<Rightarrow> True | Some p \<Rightarrow> valid_commit p)"
    by (simp add: example_valid)
  have 1: "sampled_under_lock (clock example_world (ticks example_world)) (events_of example_world (stamp_tag example_cfg example_stamper example_world example_commit ''rel1''))
      \<and> ticks (world_of (stamp_tag example_cfg example_stamper example_world example_commit ''rel1'')) = Suc (ticks example_world)"
    by (rule tt [THEN conjunct1, rule_format]) (intro conjI example_valid)
  have 2: "(\<exists>now g d rest. clock example_world (ticks example_world) = Some now
         \<and> filter is_sign (events_of example_world (stamp_tag example_cfg example_stamper example_world example_commit ''rel1''))
             = [Gpg_sign g d (keyid example_stamper) [''--faked-system-time'', str_int now @ ''!'']]
         \<and> ''object aaaaaaaaaaaaaaaaaaaaaaaaaaaaaaaaaaaaaaaa'' @ [nl]
         @ ''type commit'' @ [nl]
         @ ''tag rel1'' @ [nl]
         @ ''tagger Alice <alice@example.com> 1577836800 +0000'' @ [nl]
         @ [nl]
         @ ''https://example.org tag timestamp'' @ [nl]
         @ ''SIGLINE1'' @ [nl] @ ''SIGLINE2'' @ [nl]
           = ''object '' @ example_commit @ [nl]
              @ ''type commit'' @ [nl]
              @ ''tag '' @ ''rel1'' @ [nl]
              @ ''tagger '' @ fullid example_stamper @ '' '' @ str_int now @ '' +0000'' @ [nl]
              @ [nl]
              @ url example_stamper @ '' tag timestamp'' @ [nl]
                 @ rest)"
    by (rule tt [THEN conjunct2, THEN conjunct2, THEN conjunct1, rule_format,
          OF example_tag_result])
  have 3: "sampled_under_lock (clock example_world (ticks example_world)) (events_of example_world (stamp_branch example_cfg example_stamper example_world example_commit None example_tree))
      \<and> ticks (world_of (stamp_branch example_cfg example_stamper example_world example_commit None example_tree)) = Suc (ticks example_world)"
    by (rule tb [THEN conjunct2, THEN conjunct2, THEN conjunct2, THEN conjunct1, rule_format,
          OF v])
  have 4: "(\<exists>now g d rest. clock example_world (ticks example_world) = Some now
         \<and> filter is_sign (events_of example_world (stamp_branch example_cfg example_stamper example_world example_commit None example_tree))
             = [Gpg_sign g d (keyid example_stamper) [''--faked-system-time'', str_int now @ ''!'']]
         \<and> ''tree 0123456789abcdef0123456789abcdef01234567'' @ [nl]
         @ ''parent aaaaaaaaaaaaaaaaaaaaaaaaaaaaaaaaaaaaaaaa'' @ [nl]
         @ ''author Alice <alice@example.com> 1577836800 +0000'' @ [nl]
         @ ''committer Alice <alice@example.com> 1577836800 +0000'' @ [nl]
         @ ''gpgsig SIGLINE1'' @ [nl] @ '' SIGLINE2'' @ [nl]
         @ [nl]
         @ ''https://example.org branch timestamp 2020-01-01 00:00:00 UTC'' @ [nl]
           = ''tree '' @ example_tree @ [nl]
              @ []
              @ ''parent '' @ example_commit @ [nl]
              @ ''author '' @ fullid example_stamper @ '' '' @ str_int now @ '' +0000'' @ [nl]
              @ ''committer '' @ fullid example_stamper @ '' '' @ str_int now @ '' +0000'' @ [nl]
                 @ rest)"
    by (rule tb [THEN conjunct2, THEN conjunct2, THEN conjunct2, THEN conjunct2, THEN conjunct2,
          rule_format, OF example_branch_result, unfolded option.case])
  show ?thesis by (rule conjI [OF 1 conjI [OF 2 conjI [OF 3 4]]])
qed

section \<open>The lines of the commit log\<close>

















section \<open>Growth and rotation of the pool\<close>

lemma gpg_calls_step:
  assumes "gpgs self \<noteq> []"
  shows "\<exists>w1. gpg_calls cfg (Suc k) self w =
           (case gpg_calls cfg k (self\<lparr>gpgs := next_pool cfg self\<rparr>) w1 of
              (gs, self2, w2) \<Rightarrow> (next_gpg cfg self # gs, self2, w2))"
proof -
  have "gpg_calls cfg (Suc k) self w =
           (case gpg_calls cfg k (self\<lparr>gpgs := next_pool cfg self\<rparr>) (world_of (gpg cfg self w)) of
              (gs, self2, w2) \<Rightarrow> (next_gpg cfg self # gs, self2, w2))"
    using assms by (simp add: gpg_eq world_of_def)
  then show ?thesis by (rule exI)
qed

lemma selected_Suc:
  assumes "gpgs self \<noteq> []"
  shows "\<exists>w1. selected cfg (Suc k) self w
             = next_gpg cfg self # selected cfg k (self\<lparr>gpgs := next_pool cfg self\<rparr>) w1
           \<and> pool_after cfg (Suc k) self w
             = pool_after cfg k (self\<lparr>gpgs := next_pool cfg self\<rparr>) w1"
proof -
  obtain w1 where "gpg_calls cfg (Suc k) self w =
           (case gpg_calls cfg k (self\<lparr>gpgs := next_pool cfg self\<rparr>) w1 of
              (gs, self2, w2) \<Rightarrow> (next_gpg cfg self # gs, self2, w2))"
    using gpg_calls_step [OF assms] by blast
  then have "selected cfg (Suc k) self w
             = next_gpg cfg self # selected cfg k (self\<lparr>gpgs := next_pool cfg self\<rparr>) w1
           \<and> pool_after cfg (Suc k) self w
             = pool_after cfg k (self\<lparr>gpgs := next_pool cfg self\<rparr>) w1"
    by (simp add: selected_def pool_after_def result_of_def stamper_of_def split: prod.splits)
  then show ?thesis by blast
qed

lemma selected_0 [simp]: "selected cfg 0 self w = []" "pool_after cfg 0 self w = gpgs self"
  by (simp_all add: selected_def pool_after_def result_of_def stamper_of_def)

lemma next_pool_nonempty: "gpgs self \<noteq> [] \<Longrightarrow> next_pool cfg self \<noteq> []"
  by (simp add: next_pool_def)

lemma next_pool_length:
  "gpgs self \<noteq> [] \<Longrightarrow> length (next_pool cfg self)
     = (if int (length (gpgs self)) < number_of_gpg_agents cfg then Suc (length (gpgs self))
        else length (gpgs self))"
  by (simp add: next_pool_def)

lemma pool_length:
  "gpgs self \<noteq> [] \<Longrightarrow>
     length (pool_after cfg k self w)
     = max (length (gpgs self))
         (min (length (gpgs self) + k) (nat (number_of_gpg_agents cfg)))"
proof (induction k arbitrary: self w)
  case 0
  then show ?case by simp
next
  case (Suc k)
  let ?s = "self\<lparr>gpgs := next_pool cfg self\<rparr>"
  obtain w1 where e: "pool_after cfg (Suc k) self w = pool_after cfg k ?s w1"
    using selected_Suc [OF Suc.prems] by blast
  have ne: "gpgs ?s \<noteq> []" using next_pool_nonempty [OF Suc.prems] by simp
  have "length (pool_after cfg k ?s w1)
     = max (length (gpgs ?s)) (min (length (gpgs ?s) + k) (nat (number_of_gpg_agents cfg)))"
    by (rule Suc.IH [OF ne])
  then show ?case
    using next_pool_length [OF Suc.prems, of cfg] by (auto simp: e)
qed

lemma pool_keeps:
  "set (gpgs self) \<subseteq> set (pool_after cfg k self w)"
proof (induction k arbitrary: self w)
  case 0
  then show ?case by simp
next
  case (Suc k)
  show ?case
  proof (cases "gpgs self = []")
    case True
    then show ?thesis by simp
  next
    case False
    let ?s = "self\<lparr>gpgs := next_pool cfg self\<rparr>"
    obtain w1 where e: "pool_after cfg (Suc k) self w = pool_after cfg k ?s w1"
      using selected_Suc [OF False] by blast
    have "set (gpgs self) \<subseteq> set (gpgs ?s)"
      using False by (cases "gpgs self") (auto simp: next_pool_def)
    then show ?thesis using Suc.IH [of ?s w1] e by auto
  qed
qed

lemma pool_grows:
  "gpgs self \<noteq> [] \<Longrightarrow> int (length (gpgs self)) + int k \<le> number_of_gpg_agents cfg \<Longrightarrow>
     selected cfg k self w = map GPG_link [length (gpgs self) ..< length (gpgs self) + k]
     \<and> pool_after cfg k self w
        = gpgs self @ map GPG_link [length (gpgs self) ..< length (gpgs self) + k]"
proof (induction k arbitrary: self w)
  case 0
  then show ?case by simp
next
  case (Suc k)
  let ?s = "self\<lparr>gpgs := next_pool cfg self\<rparr>"
  obtain w1 where e: "selected cfg (Suc k) self w = next_gpg cfg self # selected cfg k ?s w1"
      "pool_after cfg (Suc k) self w = pool_after cfg k ?s w1"
    using selected_Suc [OF Suc.prems(1)] by blast
  have b: "int (length (gpgs self)) < number_of_gpg_agents cfg" using Suc.prems(2) by simp
  then have p: "gpgs ?s = gpgs self @ [GPG_link (length (gpgs self))]"
    and g: "next_gpg cfg self = GPG_link (length (gpgs self))"
    by (simp_all add: next_pool_def next_gpg_def)
  have "selected cfg k ?s w1 = map GPG_link [length (gpgs ?s) ..< length (gpgs ?s) + k]
     \<and> pool_after cfg k ?s w1
        = gpgs ?s @ map GPG_link [length (gpgs ?s) ..< length (gpgs ?s) + k]"
    by (rule Suc.IH) (use p Suc.prems(2) in auto)
  then show ?case
    unfolding e g p by (simp add: upt_rec [of "length (gpgs self)"])
qed

lemma pool_rotates:
  "gpgs self \<noteq> [] \<Longrightarrow> number_of_gpg_agents cfg \<le> int (length (gpgs self)) \<Longrightarrow>
     selected cfg k self w = map (\<lambda>i. gpgs self ! (i mod length (gpgs self))) [0..<k]
     \<and> pool_after cfg k self w = rotate k (gpgs self)"
proof (induction k arbitrary: self w)
  case 0
  then show ?case by simp
next
  case (Suc k)
  let ?p = "gpgs self"
  let ?s = "self\<lparr>gpgs := next_pool cfg self\<rparr>"
  obtain w1 where e: "selected cfg (Suc k) self w = next_gpg cfg self # selected cfg k ?s w1"
      "pool_after cfg (Suc k) self w = pool_after cfg k ?s w1"
    using selected_Suc [OF Suc.prems(1)] by blast
  have p: "gpgs ?s = rotate1 ?p" and g: "next_gpg cfg self = ?p ! 0"
    using Suc.prems by (simp_all add: next_pool_def next_gpg_def rotate1_hd_tl hd_conv_nth)
  have ih: "selected cfg k ?s w1 = map (\<lambda>i. gpgs ?s ! (i mod length (gpgs ?s))) [0..<k]
     \<and> pool_after cfg k ?s w1 = rotate k (gpgs ?s)"
    by (rule Suc.IH) (use p Suc.prems in auto)
  have n: "rotate1 ?p ! (i mod length ?p) = ?p ! (Suc i mod length ?p)" for i
  proof -
    have "i mod length ?p < length ?p" using Suc.prems(1) by simp
    then have "rotate1 ?p ! (i mod length ?p) = ?p ! (Suc (i mod length ?p) mod length ?p)"
      by (rule nth_rotate1)
    then show ?thesis by (simp add: mod_Suc_eq)
  qed
  have "selected cfg (Suc k) self w = map (\<lambda>i. ?p ! (i mod length ?p)) [0..<Suc k]"
    unfolding e g using ih by (simp add: p n map_upt_Suc del: upt_Suc)
  moreover have "pool_after cfg (Suc k) self w = rotate (Suc k) ?p"
    unfolding e using ih by (simp add: p rotate1_rotate_swap)
  ultimately show ?case by simp
qed

lemma twice_around:
  assumes "p \<noteq> []"
  shows "map (\<lambda>i. p ! (i mod length p)) [0..<2 * length p] = p @ p"
proof (rule nth_equalityI)
  show "length (map (\<lambda>i. p ! (i mod length p)) [0..<2 * length p]) = length (p @ p)" by simp
next
  fix i assume "i < length (map (\<lambda>i. p ! (i mod length p)) [0..<2 * length p])"
  then have i: "i < 2 * length p" by simp
  show "map (\<lambda>i. p ! (i mod length p)) [0..<2 * length p] ! i = (p @ p) ! i"
  proof (cases "i < length p")
    case True
    then show ?thesis using i by (simp add: nth_append)
  next
    case False
    then have "i mod length p = i - length p"
      using i by (simp add: mod_if)
    then show ?thesis using i False by (simp add: nth_append)
  qed
qed

lemma distinct_count: "distinct p \<Longrightarrow> h \<in> set p \<Longrightarrow> count_list p h = 1"
  by (induction p) (auto simp: count_list_0_iff)

lemma pool_inv_next:
  assumes "pool_inv (gpgs self)" "gpgs self \<noteq> []"
  shows "pool_inv (next_pool cfg self)"
proof (cases "int (length (gpgs self)) < number_of_gpg_agents cfg")
  case True
  have "GPG_link (length (gpgs self)) \<notin> set (gpgs self)"
    using assms(1) by (auto simp: pool_inv_def list_all_iff)
  then show ?thesis using True assms(1)
    by (auto simp: pool_inv_def next_pool_def list_all_iff split: gpg_handle.splits)
next
  case False
  obtain x xs where "gpgs self = x # xs" using assms(2) by (cases "gpgs self") auto
  then show ?thesis using False assms(1)
    by (auto simp: pool_inv_def next_pool_def list_all_iff split: gpg_handle.splits)
qed

lemma pool_inv_after:
  "pool_inv (gpgs self) \<Longrightarrow> gpgs self \<noteq> [] \<Longrightarrow> pool_inv (pool_after cfg k self w)"
proof (induction k arbitrary: self w)
  case 0
  then show ?case by simp
next
  case (Suc k)
  let ?s = "self\<lparr>gpgs := next_pool cfg self\<rparr>"
  obtain w1 where e: "pool_after cfg (Suc k) self w = pool_after cfg k ?s w1"
    using selected_Suc [OF Suc.prems(2)] by blast
  have "pool_inv (pool_after cfg k ?s w1)"
    by (rule Suc.IH)
       (use pool_inv_next [OF Suc.prems] next_pool_nonempty [OF Suc.prems(2)] in auto)
  then show ?case by (simp add: e)
qed

lemma init_pool:
  assumes "init cfg w = (Returns self, w')"
  shows "gpgs self =
     (if number_of_gpg_agents cfg \<le> 1 then [GPG_home]
      else if number_of_gpg_agents cfg = 2 then [GPG_link 1, GPG_home]
      else [GPG_home, GPG_link 1, GPG_link 2])"
  using assms
  by (auto simp: init_def gpg_eq Let_def next_pool_def next_gpg_def numeral_2_eq_2
      split: list.splits if_splits)

text \<open>
  C6 (as the code has it). The constructor starts the pool with one handle and makes two
  selections itself, so the stamper it returns has \<open>min 3 cap\<close> handles (one when the cap is
  below one), all different. From a pool of \<open>n > 0\<close> handles, \<open>k\<close> selections leave
  \<open>max n (min (n + k) cap)\<close> handles and every handle that was in the pool is still in it.
  While the pool stays within the cap, the selections create the links \<open>n\<close>, \<open>n + 1\<close>, ...,
  append them at the back and return them. Once the pool has reached the cap, a selection
  returns the handle at the front and moves it to the back: \<open>k\<close> selections return the
  handles of the pool in cyclic order and rotate the pool by \<open>k\<close>, and \<open>2 * n\<close> selections
  return the pool twice over, each handle exactly twice, and leave the pool as it was.
\<close>

theorem pool_growth_and_rotation:
  "(init cfg before = (Returns made, after) \<longrightarrow>
      length (gpgs made) = nat (max 1 (min 3 (number_of_gpg_agents cfg))) \<and> pool_inv (gpgs made))
   \<and> (gpgs self \<noteq> [] \<longrightarrow>
        length (pool_after cfg k self w)
        = max (length (gpgs self))
            (min (length (gpgs self) + k) (nat (number_of_gpg_agents cfg))))
   \<and> set (gpgs self) \<subseteq> set (pool_after cfg k self w)
   \<and> (gpgs self \<noteq> [] \<and> int (length (gpgs self)) + int k \<le> number_of_gpg_agents cfg \<longrightarrow>
        selected cfg k self w = map GPG_link [length (gpgs self) ..< length (gpgs self) + k]
        \<and> pool_after cfg k self w
           = gpgs self @ map GPG_link [length (gpgs self) ..< length (gpgs self) + k])
   \<and> (gpgs self \<noteq> [] \<and> number_of_gpg_agents cfg \<le> int (length (gpgs self)) \<longrightarrow>
        selected cfg k self w = map (\<lambda>i. gpgs self ! (i mod length (gpgs self))) [0..<k]
        \<and> pool_after cfg k self w = rotate k (gpgs self)
        \<and> selected cfg 1 self w = [hd (gpgs self)]
        \<and> pool_after cfg 1 self w = tl (gpgs self) @ [hd (gpgs self)]
        \<and> selected cfg (2 * length (gpgs self)) self w = gpgs self @ gpgs self
        \<and> pool_after cfg (2 * length (gpgs self)) self w = gpgs self
        \<and> (distinct (gpgs self) \<longrightarrow>
             (\<forall>h \<in> set (gpgs self).
                count_list (selected cfg (2 * length (gpgs self)) self w) h = 2)))
   \<and> (pool_inv (gpgs self) \<and> gpgs self \<noteq> [] \<longrightarrow> pool_inv (pool_after cfg k self w))"
proof -
  let ?p = "gpgs self"
  have 1: "init cfg before = (Returns made, after) \<longrightarrow>
      length (gpgs made) = nat (max 1 (min 3 (number_of_gpg_agents cfg))) \<and> pool_inv (gpgs made)"
  proof
    assume "init cfg before = (Returns made, after)"
    from init_pool [OF this] show "length (gpgs made) = nat (max 1 (min 3 (number_of_gpg_agents cfg)))
        \<and> pool_inv (gpgs made)"
      by (auto simp: pool_inv_def)
  qed
  have 2: "?p \<noteq> [] \<longrightarrow>
        length (pool_after cfg k self w)
        = max (length ?p) (min (length ?p + k) (nat (number_of_gpg_agents cfg)))"
    using pool_length [of self cfg k w] by blast
  have 3: "set ?p \<subseteq> set (pool_after cfg k self w)" by (rule pool_keeps)
  have 4: "?p \<noteq> [] \<and> int (length ?p) + int k \<le> number_of_gpg_agents cfg \<longrightarrow>
        selected cfg k self w = map GPG_link [length ?p ..< length ?p + k]
        \<and> pool_after cfg k self w = ?p @ map GPG_link [length ?p ..< length ?p + k]"
    using pool_grows [of self k cfg w] by blast
  have 5: "?p \<noteq> [] \<and> number_of_gpg_agents cfg \<le> int (length ?p) \<longrightarrow>
        selected cfg k self w = map (\<lambda>i. ?p ! (i mod length ?p)) [0..<k]
        \<and> pool_after cfg k self w = rotate k ?p
        \<and> selected cfg 1 self w = [hd ?p]
        \<and> pool_after cfg 1 self w = tl ?p @ [hd ?p]
        \<and> selected cfg (2 * length ?p) self w = ?p @ ?p
        \<and> pool_after cfg (2 * length ?p) self w = ?p
        \<and> (distinct ?p \<longrightarrow>
             (\<forall>h \<in> set ?p. count_list (selected cfg (2 * length ?p) self w) h = 2))"
  proof
    assume a: "?p \<noteq> [] \<and> number_of_gpg_agents cfg \<le> int (length ?p)"
    then have ne: "?p \<noteq> []" and cap: "number_of_gpg_agents cfg \<le> int (length ?p)" by auto
    note r = pool_rotates [OF ne cap]
    have one: "selected cfg 1 self w = [hd ?p]" "pool_after cfg 1 self w = tl ?p @ [hd ?p]"
      using r [of 1 w] ne by (simp_all add: hd_conv_nth rotate1_hd_tl)
    have two: "selected cfg (2 * length ?p) self w = ?p @ ?p"
      using r [of "2 * length ?p" w] twice_around [OF ne] by simp
    have again: "pool_after cfg (2 * length ?p) self w = ?p"
      using r [of "2 * length ?p" w] by simp
    have cnt: "distinct ?p \<longrightarrow>
             (\<forall>h \<in> set ?p. count_list (selected cfg (2 * length ?p) self w) h = 2)"
      by (simp add: two distinct_count)
    show "selected cfg k self w = map (\<lambda>i. ?p ! (i mod length ?p)) [0..<k]
        \<and> pool_after cfg k self w = rotate k ?p
        \<and> selected cfg 1 self w = [hd ?p]
        \<and> pool_after cfg 1 self w = tl ?p @ [hd ?p]
        \<and> selected cfg (2 * length ?p) self w = ?p @ ?p
        \<and> pool_after cfg (2 * length ?p) self w = ?p
        \<and> (distinct ?p \<longrightarrow>
             (\<forall>h \<in> set ?p. count_list (selected cfg (2 * length ?p) self w) h = 2))"
      using r [of k w] one two again cnt by blast
  qed
  have 6: "pool_inv ?p \<and> ?p \<noteq> [] \<longrightarrow> pool_inv (pool_after cfg k self w)"
    using pool_inv_after [of self cfg k w] by blast
  show ?thesis
    by (rule conjI [OF 1 conjI [OF 2 conjI [OF 3 conjI [OF 4 conjI [OF 5 6]]]]])
qed

lemma example_pool: "gpgs example_stamper = [GPG_home, GPG_link 1, GPG_link 2]"
  by (simp add: example_stamper_def)

theorem pool_growth_and_rotation_witness:
  "length (gpgs example_stamper) = nat (max 1 (min 3 (number_of_gpg_agents example_cfg)))
   \<and> pool_inv (gpgs example_stamper)
   \<and> selected example_cfg 2 (example_stamper\<lparr>gpgs := [GPG_home]\<rparr>) example_world
       = [GPG_link 1, GPG_link 2]
   \<and> pool_after example_cfg 2 (example_stamper\<lparr>gpgs := [GPG_home]\<rparr>) example_world
       = [GPG_home, GPG_link 1, GPG_link 2]
   \<and> selected example_cfg 6 example_stamper example_world
       = [GPG_home, GPG_link 1, GPG_link 2, GPG_home, GPG_link 1, GPG_link 2]
   \<and> pool_after example_cfg 6 example_stamper example_world
       = [GPG_home, GPG_link 1, GPG_link 2]
   \<and> count_list (selected example_cfg 6 example_stamper example_world) GPG_home = 2
   \<and> count_list (selected example_cfg 6 example_stamper example_world) (GPG_link 1) = 2
   \<and> count_list (selected example_cfg 6 example_stamper example_world) (GPG_link 2) = 2"
proof -
  note t = pool_growth_and_rotation [where cfg = example_cfg and before = example_world
      and made = example_stamper and self = example_stamper and w = example_world]
  note g = pool_growth_and_rotation [where cfg = example_cfg
      and self = "example_stamper\<lparr>gpgs := [GPG_home]\<rparr>" and w = example_world and k = 2]
  have 1: "length (gpgs example_stamper) = nat (max 1 (min 3 (number_of_gpg_agents example_cfg)))
      \<and> pool_inv (gpgs example_stamper)"
    by (rule t [THEN conjunct1, rule_format, OF example_init])
  have 2: "selected example_cfg 2 (example_stamper\<lparr>gpgs := [GPG_home]\<rparr>) example_world
       = [GPG_link 1, GPG_link 2]
     \<and> pool_after example_cfg 2 (example_stamper\<lparr>gpgs := [GPG_home]\<rparr>) example_world
       = [GPG_home, GPG_link 1, GPG_link 2]"
    using g [THEN conjunct2, THEN conjunct2, THEN conjunct2, THEN conjunct1]
    by (simp add: example_cfg_def upt_rec)
  have c: "gpgs example_stamper \<noteq> []
      \<and> number_of_gpg_agents example_cfg \<le> int (length (gpgs example_stamper))"
    by (simp add: example_pool example_cfg_def)
  note r = t [where k = 0, THEN conjunct2, THEN conjunct2, THEN conjunct2, THEN conjunct2,
      THEN conjunct1, rule_format, OF c]
  have six: "2 * length (gpgs example_stamper) = 6" by (simp add: example_pool)
  have d: "distinct (gpgs example_stamper)" by (simp add: example_pool)
  note r6 = r [unfolded six]
  have 3: "selected example_cfg 6 example_stamper example_world
       = [GPG_home, GPG_link 1, GPG_link 2, GPG_home, GPG_link 1, GPG_link 2]"
    using r6 [THEN conjunct2, THEN conjunct2, THEN conjunct2, THEN conjunct2, THEN conjunct1]
    by (simp add: example_pool)
  have 4: "pool_after example_cfg 6 example_stamper example_world
       = [GPG_home, GPG_link 1, GPG_link 2]"
    using r6 [THEN conjunct2, THEN conjunct2, THEN conjunct2, THEN conjunct2, THEN conjunct2,
        THEN conjunct1]
    by (simp add: example_pool)
  note cnt = r6 [THEN conjunct2, THEN conjunct2, THEN conjunct2, THEN conjunct2, THEN conjunct2,
      THEN conjunct2, rule_format, OF d]
  have 6: "count_list (selected example_cfg 6 example_stamper example_world) GPG_home = 2
   \<and> count_list (selected example_cfg 6 example_stamper example_world) (GPG_link 1) = 2
   \<and> count_list (selected example_cfg 6 example_stamper example_world) (GPG_link 2) = 2"
    by (intro conjI cnt) (simp_all add: example_pool)
  show ?thesis using 1 2 3 4 6 by simp
qed

text \<open>
  C6 as stated fails on the number of handles: with a cap of 3, the pool the constructor
  starts from has one handle before any selection and two after one selection, and the
  stamper the constructor returns has three handles, before and after its first request.
\<close>

theorem pool_count_counterexample:
  "number_of_gpg_agents example_cfg = 3
   \<and> length (pool_after example_cfg 0 (example_stamper\<lparr>gpgs := [GPG_home]\<rparr>) example_world) = 1
   \<and> length (pool_after example_cfg 1 (example_stamper\<lparr>gpgs := [GPG_home]\<rparr>) example_world) = 2
   \<and> fst (init example_cfg example_world) = Returns example_stamper
   \<and> length (gpgs example_stamper) = 3
   \<and> length (pool_after example_cfg 1 example_stamper example_world) = 3"
proof -
  have "fst (init example_cfg example_world) = Returns example_stamper"
    by (simp only: example_init fst_conv)
  moreover have "number_of_gpg_agents example_cfg = 3
   \<and> length (pool_after example_cfg 0 (example_stamper\<lparr>gpgs := [GPG_home]\<rparr>) example_world) = 1
   \<and> length (pool_after example_cfg 1 (example_stamper\<lparr>gpgs := [GPG_home]\<rparr>) example_world) = 2
   \<and> length (gpgs example_stamper) = 3
   \<and> length (pool_after example_cfg 1 example_stamper example_world) = 3"
    by (simp add: pool_after_def stamper_of_def gpg_def emit_def Let_def
        example_cfg_def example_pool)
  ultimately show ?thesis by simp
qed

end
